theory Spec2Isabelle
  imports Main "HOL-Library.Char_ord" "HOL-Library.List_Lexorder"
begin

section \<open>Data model (types.ts)\<close>

text \<open>
  The interfaces of the front end, field by field. A field declared with \<open>?\<close> is an
  \<open>option\<close>: \<open>None\<close> is the absent (undefined) value. A string is the list of the
  UTF-8 bytes of its text, so an ASCII character is one byte and every byte of any
  other character is above \<open>0x7F\<close>.
\<close>

record action_item =
  task :: string
  deadline :: "string option"
  completed :: "bool option"

record email =
  id' :: string
  sender :: string
  subject :: string
  body :: string
  timestamp :: string
  read :: bool
  category :: "string option"
  action_items :: "action_item list option"
  source :: "string option"
  snippet :: "string option"
  to' :: "string list option"
  cc :: "string list option"
  bcc :: "string list option"
  thread_id :: "string option"
  message_id :: "string option"
  history_id :: "string option"
  label_ids :: "string list option"
  internal_date :: "int option"

record gmail_status =
  authenticated :: bool
  email_address :: "string option"
  last_sync :: "string option"
  last_manual_sync :: "string option"
  history_id_s :: "string option"
  total_synced :: "int option"
  scopes :: "string list option"

text \<open>
  The part of the zustand store (\<open>AppState\<close>) that the modelled operations read or
  write. \<open>emails\<close> is the displayed list, \<open>allEmails\<close> the full one.
\<close>

record app_state =
  emails :: "email list"
  allEmails :: "email list"
  selectedEmailId :: "string option"
  selectedThreadEmails :: "email list"
  isLoading :: bool
  gmailStatus :: "gmail_status option"

section \<open>JavaScript helpers\<close>

text \<open>\<open>Array.prototype.map\<close> and \<open>filter\<close> with the callback's index argument.\<close>

definition map_index :: "('a \<Rightarrow> nat \<Rightarrow> 'b) \<Rightarrow> 'a list \<Rightarrow> 'b list" where
  "map_index f xs = map (\<lambda>(idx, x). f x idx) (enumerate 0 xs)"

definition filter_index :: "('a \<Rightarrow> nat \<Rightarrow> bool) \<Rightarrow> 'a list \<Rightarrow> 'a list" where
  "filter_index p xs = map snd (filter (\<lambda>(idx, x). p x idx) (enumerate 0 xs))"

text \<open>\<open>!v\<close> for an optional boolean: undefined is falsy.\<close>

definition js_not :: "bool option \<Rightarrow> bool" where
  "js_not v = (case v of None \<Rightarrow> True | Some b \<Rightarrow> \<not> b)"

text \<open>
  The ASCII part of \<open>String.prototype.toLowerCase\<close>: the letters \<open>A\<close> to \<open>Z\<close> are
  mapped, every other byte is kept. It is used where the source compares the
  lower-cased text with a literal of ASCII letters (\<open>=== "gmail"\<close>,
  \<open>.includes("spam")\<close>) and for the flag \<open>i\<close> of a pattern of ASCII letters. There
  it decides as the full mapping does: a character outside ASCII lower-cases to
  characters outside ASCII, but for \<open>U+0130\<close> (to \<open>i\<close> and a combining dot) and
  \<open>U+212A\<close> (to \<open>k\<close>), and no literal compared here can match across these. Where
  the lower-cased text itself is kept (the key of a thread), the full mapping is a
  parameter of the model.
\<close>

definition toLowerCase_char :: "char \<Rightarrow> char" where
  "toLowerCase_char c =
     (let n = (of_char c :: nat) in if 65 \<le> n \<and> n \<le> 90 then char_of (n + 32) else c)"

definition toLowerCase :: "string \<Rightarrow> string" where
  "toLowerCase s = map toLowerCase_char s"

text \<open>\<open>String.prototype.startsWith\<close>\<close>

fun starts_with :: "string \<Rightarrow> string \<Rightarrow> bool" where
  "starts_with s [] = True"
| "starts_with [] (p # ps) = False"
| "starts_with (c # cs) (p # ps) = (c = p \<and> starts_with cs ps)"

text \<open>
  The white space of JavaScript (\<open>WhiteSpace\<close> and \<open>LineTerminator\<close>, the class
  \<open>\s\<close> of a pattern and what \<open>trim\<close> removes), each character in UTF-8:
  \<open>U+0009\<close> to \<open>U+000D\<close>, \<open>U+0020\<close>, \<open>U+00A0\<close>, \<open>U+1680\<close>, \<open>U+2000\<close> to
  \<open>U+200A\<close>, \<open>U+2028\<close>, \<open>U+2029\<close>, \<open>U+202F\<close>, \<open>U+205F\<close>, \<open>U+3000\<close> and
  \<open>U+FEFF\<close>.
\<close>

definition white_space :: "string list" where
  "white_space =
     [[CHR 0x09], [CHR 0x0A], [CHR 0x0B], [CHR 0x0C], [CHR 0x0D], [CHR 0x20],
      [CHR 0xC2, CHR 0xA0],
      [CHR 0xE1, CHR 0x9A, CHR 0x80],
      [CHR 0xE2, CHR 0x80, CHR 0x80], [CHR 0xE2, CHR 0x80, CHR 0x81],
      [CHR 0xE2, CHR 0x80, CHR 0x82], [CHR 0xE2, CHR 0x80, CHR 0x83],
      [CHR 0xE2, CHR 0x80, CHR 0x84], [CHR 0xE2, CHR 0x80, CHR 0x85],
      [CHR 0xE2, CHR 0x80, CHR 0x86], [CHR 0xE2, CHR 0x80, CHR 0x87],
      [CHR 0xE2, CHR 0x80, CHR 0x88], [CHR 0xE2, CHR 0x80, CHR 0x89],
      [CHR 0xE2, CHR 0x80, CHR 0x8A],
      [CHR 0xE2, CHR 0x80, CHR 0xA8], [CHR 0xE2, CHR 0x80, CHR 0xA9],
      [CHR 0xE2, CHR 0x80, CHR 0xAF],
      [CHR 0xE2, CHR 0x81, CHR 0x9F],
      [CHR 0xE3, CHR 0x80, CHR 0x80],
      [CHR 0xEF, CHR 0xBB, CHR 0xBF]]"

text \<open>
  The number of bytes of the sequence of \<open>ws\<close> that \<open>s\<close> starts with, \<open>0\<close> when it
  starts with none; and the text left when such sequences are removed from the
  start for as long as there is one.
\<close>

definition match_length :: "string list \<Rightarrow> string \<Rightarrow> nat" where
  "match_length ws s = (case find (\<lambda>w. starts_with s w) ws of None \<Rightarrow> 0 | Some w \<Rightarrow> length w)"

function strip_start :: "string list \<Rightarrow> string \<Rightarrow> string" where
  "strip_start ws [] = []"
| "strip_start ws (c # cs) =
     (case match_length ws (c # cs) of
        0 \<Rightarrow> c # cs
      | Suc n \<Rightarrow> strip_start ws (drop n cs))"
  by pat_completeness auto
termination
  by (relation "measure (\<lambda>(ws, s). length s)") auto

text \<open>
  \<open>String.prototype.trim\<close> removes white space at both ends; at the end, the
  reversed text is stripped of the reversed sequences.
\<close>

definition trimStart :: "string \<Rightarrow> string" where
  "trimStart s = strip_start white_space s"

definition trimEnd :: "string \<Rightarrow> string" where
  "trimEnd s = rev (strip_start (map rev white_space) (rev s))"

definition trim :: "string \<Rightarrow> string" where
  "trim s = trimEnd (trimStart s)"

section \<open>The store (lib/api.ts, from \<open>filterEmailsForDisplay\<close> on)\<close>

subsection \<open>filterEmailsForDisplay\<close>

text \<open>
  \<open>email.source?.toLowerCase() === "gmail" || ... === "gmail_draft"\<close>; an absent
  source compares unequal to both literals.
\<close>

definition is_gmail_source :: "email \<Rightarrow> bool" where
  "is_gmail_source e =
     (case source e of
        None \<Rightarrow> False
      | Some s \<Rightarrow> toLowerCase s = ''gmail'' \<or> toLowerCase s = ''gmail_draft'')"

text \<open>\<open>status?.authenticated\<close>: a null status is falsy.\<close>

definition status_authenticated :: "gmail_status option \<Rightarrow> bool" where
  "status_authenticated status = (case status of None \<Rightarrow> False | Some st \<Rightarrow> authenticated st)"

definition filterEmailsForDisplay :: "email list \<Rightarrow> gmail_status option \<Rightarrow> email list" where
  "filterEmailsForDisplay es status =
     (if status_authenticated status
      then filter (\<lambda>e. is_gmail_source e) es
      else filter (\<lambda>e. \<not> is_gmail_source e) es)"

subsection \<open>toggleActionItem and deleteActionItem\<close>

text \<open>
  Both build \<open>updateList\<close> and apply it to the displayed and to the full list. An
  email is rewritten when its id matches and \<open>action_items\<close> is present (an array,
  also an empty one, is truthy). \<open>taskIndex\<close> is compared with the callback's index
  by \<open>===\<close>, so an index that is no position of the list matches nothing.
\<close>

definition toggle_item :: "nat \<Rightarrow> action_item \<Rightarrow> nat \<Rightarrow> action_item" where
  "toggle_item taskIndex item idx =
     (if idx = taskIndex then item\<lparr>completed := Some (js_not (completed item))\<rparr> else item)"

definition toggle_email :: "string \<Rightarrow> nat \<Rightarrow> email \<Rightarrow> email" where
  "toggle_email emailId taskIndex e =
     (case action_items e of
        Some items \<Rightarrow>
          if id' e = emailId
          then e\<lparr>action_items := Some (map_index (toggle_item taskIndex) items)\<rparr>
          else e
      | None \<Rightarrow> e)"

definition toggleActionItem :: "string \<Rightarrow> nat \<Rightarrow> app_state \<Rightarrow> app_state" where
  "toggleActionItem emailId taskIndex s =
     s\<lparr>emails := map (toggle_email emailId taskIndex) (emails s),
       allEmails := map (toggle_email emailId taskIndex) (allEmails s)\<rparr>"

definition delete_email :: "string \<Rightarrow> nat \<Rightarrow> email \<Rightarrow> email" where
  "delete_email emailId taskIndex e =
     (case action_items e of
        Some items \<Rightarrow>
          if id' e = emailId
          then e\<lparr>action_items := Some (filter_index (\<lambda>_ idx. idx \<noteq> taskIndex) items)\<rparr>
          else e
      | None \<Rightarrow> e)"

definition deleteActionItem :: "string \<Rightarrow> nat \<Rightarrow> app_state \<Rightarrow> app_state" where
  "deleteActionItem emailId taskIndex s =
     s\<lparr>emails := map (delete_email emailId taskIndex) (emails s),
       allEmails := map (delete_email emailId taskIndex) (allEmails s)\<rparr>"

subsection \<open>setSelectedEmailId and setSelectedThreadEmails\<close>

text \<open>\<open>if (id)\<close>: null and the empty string are falsy.\<close>

definition truthy_id :: "string option \<Rightarrow> bool" where
  "truthy_id v = (case v of None \<Rightarrow> False | Some i \<Rightarrow> i \<noteq> [])"

definition mark_read :: "string \<Rightarrow> email \<Rightarrow> email" where
  "mark_read i e = (if id' e = i then e\<lparr>read := True\<rparr> else e)"

definition setSelectedEmailId :: "string option \<Rightarrow> app_state \<Rightarrow> app_state" where
  "setSelectedEmailId v s =
     (let s1 = s\<lparr>selectedEmailId := v\<rparr>
      in case v of
           None \<Rightarrow> s1
         | Some i \<Rightarrow>
             if i \<noteq> []
             then s1\<lparr>emails := map (mark_read i) (emails s1),
                     allEmails := map (mark_read i) (allEmails s1)\<rparr>
             else s1)"

definition setSelectedThreadEmails :: "email list \<Rightarrow> app_state \<Rightarrow> app_state" where
  "setSelectedThreadEmails es s = s\<lparr>selectedThreadEmails := es\<rparr>"

subsection \<open>ingestEmails: the event stream\<close>

text \<open>
  The response body is read chunk by chunk; a chunk is split into lines; a line that
  starts with \<open>data: \<close> is parsed as JSON and dispatched on its \<open>type\<close>. A line is
  modelled after that parse: not a data line, a data line whose JSON does not parse
  (\<open>JSON.parse\<close> throws), or a parsed event. \<open>message\<close> of an error event may be
  absent.
\<close>

datatype sse_data =
    Error_event "string option"
  | Category_event email
  | Action_items_event email
  | Complete_event
  | Other_event

datatype sse_line = Not_data | Bad_json | Data sse_data

text \<open>\<open>String.prototype.includes\<close>: the pattern occurs at some position.\<close>

fun includes_str :: "string \<Rightarrow> string \<Rightarrow> bool" where
  "includes_str [] p = (p = [])"
| "includes_str (c # cs) p = (starts_with (c # cs) p \<or> includes_str cs p)"

text \<open>
  What a run carries besides the store: the alerts shown so far, the local flag
  \<open>hasShownError\<close>, and the number of calls of \<open>api.getEmails\<close> made so far. The
  answers of \<open>api.getEmails\<close> are an input of the model: \<open>fetch n\<close> is the answer to
  call number \<open>n\<close>, \<open>None\<close> when the promise rejects.
\<close>

record ingest_run =
  store :: app_state
  alerts :: "string list"
  hasShownError :: bool
  fetches :: nat

datatype outcome = Continue | Returned | Thrown

definition set_category :: "email \<Rightarrow> email \<Rightarrow> email" where
  "set_category updatedEmail e =
     (if id' e = id' updatedEmail then e\<lparr>category := category updatedEmail\<rparr> else e)"

definition set_action_items :: "email \<Rightarrow> email \<Rightarrow> email" where
  "set_action_items updatedEmail e =
     (if id' e = id' updatedEmail then e\<lparr>action_items := action_items updatedEmail\<rparr> else e)"

definition on_category :: "gmail_status option \<Rightarrow> email \<Rightarrow> app_state \<Rightarrow> app_state" where
  "on_category status updatedEmail s =
     (let all = map (set_category updatedEmail) (allEmails s)
      in s\<lparr>allEmails := all, emails := filterEmailsForDisplay all status\<rparr>)"

definition on_action_items :: "gmail_status option \<Rightarrow> email \<Rightarrow> app_state \<Rightarrow> app_state" where
  "on_action_items status updatedEmail s =
     (let all = map (set_action_items updatedEmail) (allEmails s)
      in s\<lparr>allEmails := all, emails := filterEmailsForDisplay all status\<rparr>)"

text \<open>\<open>const allEmails = await api.getEmails(); set({allEmails, emails: ...})\<close>\<close>

definition refresh ::
  "gmail_status option \<Rightarrow> (nat \<Rightarrow> email list option) \<Rightarrow> ingest_run \<Rightarrow> ingest_run option" where
  "refresh status fetch r =
     (case fetch (fetches r) of
        None \<Rightarrow> None
      | Some all \<Rightarrow>
          Some (r\<lparr>store := (store r)\<lparr>allEmails := all,
                                    emails := filterEmailsForDisplay all status\<rparr>,
                  fetches := Suc (fetches r)\<rparr>))"

text \<open>
  \<open>data.message?.includes("Error calling Groq")\<close>: an absent message is falsy.
\<close>

definition is_groq_error :: "string option \<Rightarrow> bool" where
  "is_groq_error message =
     (case message of None \<Rightarrow> False | Some m \<Rightarrow> includes_str m ''Error calling Groq'')"

text \<open>The alert, shown once: the literal prefix, two line feeds, the message as it came.\<close>

definition alert_text :: "string option \<Rightarrow> string" where
  "alert_text message =
     ''Ingestion Error:'' @ [CHR 0x0A, CHR 0x0A] @
       (case message of None \<Rightarrow> ''undefined'' | Some m \<Rightarrow> m)"

definition show_error :: "string option \<Rightarrow> ingest_run \<Rightarrow> ingest_run" where
  "show_error message r =
     (if \<not> hasShownError r
      then r\<lparr>hasShownError := True, alerts := alerts r @ [alert_text message]\<rparr>
      else r)"

fun handle_line ::
  "gmail_status option \<Rightarrow> (nat \<Rightarrow> email list option) \<Rightarrow> sse_line \<Rightarrow> ingest_run
     \<Rightarrow> outcome \<times> ingest_run" where
  "handle_line status fetch Not_data r = (Continue, r)"
| "handle_line status fetch Bad_json r = (Thrown, r)"
| "handle_line status fetch (Data (Error_event message)) r =
     (if is_groq_error message
      then (let r1 = show_error message r
            in case refresh status fetch r1 of
                 None \<Rightarrow> (Thrown, r1\<lparr>fetches := Suc (fetches r1)\<rparr>)
               | Some r2 \<Rightarrow> (Returned, r2))
      else (Continue, r))"
| "handle_line status fetch (Data (Category_event updatedEmail)) r =
     (Continue, r\<lparr>store := on_category status updatedEmail (store r)\<rparr>)"
| "handle_line status fetch (Data (Action_items_event updatedEmail)) r =
     (Continue, r\<lparr>store := on_action_items status updatedEmail (store r)\<rparr>)"
| "handle_line status fetch (Data Complete_event) r =
     (case refresh status fetch r of
        None \<Rightarrow> (Thrown, r\<lparr>fetches := Suc (fetches r)\<rparr>)
      | Some r1 \<Rightarrow> (Continue, r1))"
| "handle_line status fetch (Data Other_event) r = (Continue, r)"

text \<open>\<open>for (const line of lines)\<close>: a return or a throw leaves the loop.\<close>

fun process_lines ::
  "gmail_status option \<Rightarrow> (nat \<Rightarrow> email list option) \<Rightarrow> sse_line list \<Rightarrow> ingest_run
     \<Rightarrow> outcome \<times> ingest_run" where
  "process_lines status fetch [] r = (Continue, r)"
| "process_lines status fetch (l # ls) r =
     (case handle_line status fetch l r of
        (Continue, r1) \<Rightarrow> process_lines status fetch ls r1
      | (Returned, r1) \<Rightarrow> (Returned, r1)
      | (Thrown, r1) \<Rightarrow> (Thrown, r1))"

text \<open>
  \<open>while (true) { read; if (done) break; ... }\<close> over the chunks of the body; the
  end of the list is \<open>done\<close>.
\<close>

fun process_chunks ::
  "gmail_status option \<Rightarrow> (nat \<Rightarrow> email list option) \<Rightarrow> sse_line list list \<Rightarrow> ingest_run
     \<Rightarrow> outcome \<times> ingest_run" where
  "process_chunks status fetch [] r = (Continue, r)"
| "process_chunks status fetch (chunk # chunks) r =
     (case process_lines status fetch chunk r of
        (Continue, r1) \<Rightarrow> process_chunks status fetch chunks r1
      | (Returned, r1) \<Rightarrow> (Returned, r1)
      | (Thrown, r1) \<Rightarrow> (Thrown, r1))"

text \<open>
  The answer to \<open>POST /ingest\<close>: the fetch rejects, the response is not ok, it has
  no body, or it has a body of chunks.
\<close>

datatype ingest_response = Fetch_rejected | Not_ok | No_body | Body "sse_line list list"

text \<open>
  The whole action: \<open>isLoading\<close> is set, the status is read once, the stream is
  processed, and the \<open>finally\<close> block clears \<open>isLoading\<close> on every way out. The
  outcome \<open>Continue\<close> of the loops is the normal end of the action.
\<close>

definition ingestEmails ::
  "ingest_response \<Rightarrow> (nat \<Rightarrow> email list option) \<Rightarrow> app_state \<Rightarrow> outcome \<times> ingest_run" where
  "ingestEmails response fetch s =
     (let r0 = \<lparr>store = s\<lparr>isLoading := True\<rparr>, alerts = [], hasShownError = False, fetches = 0\<rparr>;
          status = gmailStatus s;
          (out, r1) = (case response of
                         Fetch_rejected \<Rightarrow> (Thrown, r0)
                       | Not_ok \<Rightarrow> (Thrown, r0)
                       | No_body \<Rightarrow> (Thrown, r0)
                       | Body chunks \<Rightarrow> process_chunks status fetch chunks r0)
      in (if out = Continue then Returned else out, r1\<lparr>store := (store r1)\<lparr>isLoading := False\<rparr>\<rparr>))"

section \<open>The inbox view (components/InboxViewer.tsx)\<close>

subsection \<open>The folder filter and the sub filter\<close>

datatype folder = Inbox | Drafts | Sent | Spam

text \<open>\<open>email.category?.toLowerCase().includes(w)\<close>, falsy when the category is absent.\<close>

definition category_has :: "email \<Rightarrow> string \<Rightarrow> bool" where
  "category_has e w =
     (case category e of None \<Rightarrow> False | Some c \<Rightarrow> includes_str (toLowerCase c) w)"

fun matchesFolder :: "folder \<Rightarrow> email \<Rightarrow> bool" where
  "matchesFolder Inbox e =
     (\<not> category_has e ''spam'' \<and> \<not> category_has e ''draft'' \<and> \<not> category_has e ''sent'')"
| "matchesFolder Spam e = category_has e ''spam''"
| "matchesFolder Drafts e = category_has e ''draft''"
| "matchesFolder Sent e = category_has e ''sent''"

definition filteredEmails :: "folder \<Rightarrow> string \<Rightarrow> email list \<Rightarrow> email list" where
  "filteredEmails fl subFilter es =
     filter (\<lambda>e. if \<not> matchesFolder fl e then False
                 else if subFilter = ''unread'' then \<not> read e
                 else if subFilter \<noteq> ''all'' then category e = Some subFilter
                 else True) es"

subsection \<open>normalizeSubject\<close>

text \<open>
  \<open>subject.replace(/^(re|fwd|fw):\s*/gi, '').trim().toLowerCase()\<close>. The pattern is
  anchored at the start of the string, so it matches at most once: one prefix is
  removed, with the white space after it. The alternatives are tried in the order
  of the pattern; under the flag \<open>i\<close> without the flag \<open>u\<close> a character outside
  ASCII never equals an ASCII letter, so the test is on the ASCII lower-casing.
\<close>

definition strip_reply_prefix :: "string \<Rightarrow> string" where
  "strip_reply_prefix s =
     (let l = toLowerCase s
      in if starts_with l ''re:'' then trimStart (drop 3 s)
         else if starts_with l ''fwd:'' then trimStart (drop 4 s)
         else if starts_with l ''fw:'' then trimStart (drop 3 s)
         else s)"

text \<open>
  The last step lower-cases the whole text, of any script. \<open>lower\<close> stands for
  \<open>String.prototype.toLowerCase\<close> with the case table of the JavaScript engine, a
  parameter of the model; on ASCII text it is \<open>toLowerCase\<close>.
\<close>

definition normalizeSubject :: "(string \<Rightarrow> string) \<Rightarrow> string \<Rightarrow> string" where
  "normalizeSubject lower s = lower (trim (strip_reply_prefix s))"

subsection \<open>Dates and sorting\<close>

text \<open>
  \<open>parseDate\<close> stands for \<open>new Date(_).getTime()\<close>, a parameter of the model: the
  time in milliseconds, \<open>None\<close> for a text that is no date (\<open>NaN\<close>). A comparison
  with \<open>NaN\<close> is false.
\<close>

definition later_than :: "(string \<Rightarrow> int option) \<Rightarrow> string \<Rightarrow> string \<Rightarrow> bool" where
  "later_than parseDate a b =
     (case parseDate a of
        None \<Rightarrow> False
      | Some x \<Rightarrow> (case parseDate b of None \<Rightarrow> False | Some y \<Rightarrow> x > y))"

text \<open>
  \<open>xs.sort((a, b) => time(b) - time(a))\<close>. When every time is a number the
  comparison is consistent and the sort is the stable one, newest first. With a
  \<open>NaN\<close> among the times the order is left to the engine, which sees the elements
  through the comparison only: \<open>engine\<close>, a parameter of the model, gives for the
  list of the times the positions of the input in the order of the output.
\<close>

definition sort_newest ::
  "(int option list \<Rightarrow> nat list) \<Rightarrow> ('a \<Rightarrow> int option) \<Rightarrow> 'a list \<Rightarrow> 'a list" where
  "sort_newest engine time xs =
     (if list_all (\<lambda>x. time x \<noteq> None) xs
      then sort_key (\<lambda>x. case time x of None \<Rightarrow> 0 | Some v \<Rightarrow> - v) xs
      else map (\<lambda>i. xs ! i) (engine (map time xs)))"

subsection \<open>Grouping into threads\<close>

record email_thread =
  id_t :: string
  subject_t :: string
  emails_t :: "email list"
  latestTimestamp :: string
  hasUnread :: bool

text \<open>
  One step of \<open>filteredEmails.forEach\<close>. \<open>threadMap\<close> maps a normalized subject to
  the thread with that id, and \<open>threads\<close> holds the same threads in the order of
  their creation, so the list alone carries both.
\<close>

definition add_email ::
  "(string \<Rightarrow> string) \<Rightarrow> (string \<Rightarrow> int option) \<Rightarrow> email_thread list \<Rightarrow> email
     \<Rightarrow> email_thread list" where
  "add_email lower parseDate threads e =
     (let normalizedSubject = normalizeSubject lower (subject e)
      in if normalizedSubject \<notin> id_t ` set threads
         then threads @ [\<lparr>id_t = normalizedSubject, subject_t = subject e, emails_t = [e],
                          latestTimestamp = timestamp e, hasUnread = (\<not> read e)\<rparr>]
         else map (\<lambda>t. if id_t t = normalizedSubject
                         then t\<lparr>emails_t := emails_t t @ [e],
                                latestTimestamp :=
                                  (if later_than parseDate (timestamp e) (latestTimestamp t)
                                   then timestamp e else latestTimestamp t),
                                hasUnread := (hasUnread t \<or> \<not> read e)\<rparr>
                         else t) threads)"

definition group_threads ::
  "(string \<Rightarrow> string) \<Rightarrow> (string \<Rightarrow> int option) \<Rightarrow> email list \<Rightarrow> email_thread list" where
  "group_threads lower parseDate es = foldl (add_email lower parseDate) [] es"

text \<open>The two sorts: the emails of every thread, then the threads.\<close>

definition sort_thread ::
  "(string \<Rightarrow> int option) \<Rightarrow> (int option list \<Rightarrow> nat list) \<Rightarrow> email_thread \<Rightarrow> email_thread" where
  "sort_thread parseDate engine t =
     t\<lparr>emails_t := sort_newest engine (\<lambda>e. parseDate (timestamp e)) (emails_t t)\<rparr>"

definition threads ::
  "(string \<Rightarrow> string) \<Rightarrow> (string \<Rightarrow> int option) \<Rightarrow> (int option list \<Rightarrow> nat list)
     \<Rightarrow> email list \<Rightarrow> email_thread list" where
  "threads lower parseDate engine es =
     sort_newest engine (\<lambda>t. parseDate (latestTimestamp t))
       (map (sort_thread parseDate engine) (group_threads lower parseDate es))"

text \<open>
  The rows of a thread that are rendered, and so can be clicked: all emails of an
  expanded thread, the first email of a collapsed one.
\<close>

definition displayEmails :: "email_thread \<Rightarrow> string set \<Rightarrow> email list" where
  "displayEmails t expandedThreads =
     (if length (emails_t t) = 1 then emails_t t
      else if id_t t \<in> expandedThreads then emails_t t
      else take 1 (emails_t t))"

subsection \<open>handleEmailClick\<close>

text \<open>
  The state of the view is the store together with the set \<open>expandedThreads\<close> of
  the component. \<open>isAlreadySelected\<close> reads the selection of the render in which
  the click happened, that is, the one before \<open>setSelectedEmailId\<close>.
\<close>

definition handleEmailClick ::
  "email \<Rightarrow> email_thread \<Rightarrow> app_state \<times> string set \<Rightarrow> app_state \<times> string set" where
  "handleEmailClick e t view =
     (let s = fst view; expandedThreads = snd view;
          s1 = setSelectedEmailId (Some (id' e)) s
      in if length (emails_t t) > 1
         then (let isCurrentlyExpanded = (id_t t \<in> expandedThreads);
                   isAlreadySelected = (selectedEmailId s = Some (id' e));
                   expanded1 = (if isAlreadySelected
                                then (if id_t t \<in> expandedThreads
                                      then expandedThreads - {id_t t}
                                      else insert (id_t t) expandedThreads)
                                else insert (id_t t) expandedThreads);
                   willBeExpanded = (if isAlreadySelected then \<not> isCurrentlyExpanded else True)
               in if willBeExpanded
                  then (setSelectedThreadEmails [e] s1, expanded1)
                  else (setSelectedThreadEmails (emails_t t) s1, expanded1))
         else (setSelectedThreadEmails [e] s1, expandedThreads))"

subsection \<open>The view over time\<close>

text \<open>
  The store as \<open>create\<close> makes it, and what can happen to the view afterwards. A
  click hits a rendered row: row \<open>j\<close> of thread \<open>k\<close> of the threads built from the
  displayed emails of the store under the folder and the sub filter of that moment
  (a click on no row does nothing). The set of expanded threads changes
  (\<open>toggleThread\<close>, a new mount of the component). Every other action of the store
  (\<open>fetchEmails\<close>, \<open>setSelectedEmailId\<close>, the progress events of an ingestion,
  \<open>toggleActionItem\<close>, \<open>logoutGmail\<close>, ...) may change any field but
  \<open>selectedThreadEmails\<close>, which only \<open>setSelectedThreadEmails\<close> writes and only
  \<open>handleEmailClick\<close> calls: such an action is any function on the store, with
  that field kept.
\<close>

definition initial_state :: app_state where
  "initial_state =
     \<lparr>emails = [], allEmails = [], selectedEmailId = None, selectedThreadEmails = [],
      isLoading = False, gmailStatus = None\<rparr>"

datatype event =
    Click folder string nat nat
  | Expanded "string set"
  | Store_action "app_state \<Rightarrow> app_state"

fun step ::
  "(string \<Rightarrow> string) \<Rightarrow> (string \<Rightarrow> int option) \<Rightarrow> (int option list \<Rightarrow> nat list)
     \<Rightarrow> app_state \<times> string set \<Rightarrow> event \<Rightarrow> app_state \<times> string set" where
  "step lower parseDate engine view (Click fl subFilter k j) =
     (let ts = threads lower parseDate engine (filteredEmails fl subFilter (emails (fst view)))
      in if k < length ts
         then (let rows = displayEmails (ts ! k) (snd view)
               in if j < length rows then handleEmailClick (rows ! j) (ts ! k) view else view)
         else view)"
| "step lower parseDate engine view (Expanded expandedThreads) = (fst view, expandedThreads)"
| "step lower parseDate engine view (Store_action f) =
     ((f (fst view))\<lparr>selectedThreadEmails := selectedThreadEmails (fst view)\<rparr>, snd view)"

definition run ::
  "(string \<Rightarrow> string) \<Rightarrow> (string \<Rightarrow> int option) \<Rightarrow> (int option list \<Rightarrow> nat list)
     \<Rightarrow> event list \<Rightarrow> app_state \<times> string set" where
  "run lower parseDate engine events = foldl (step lower parseDate engine) (initial_state, {}) events"

section \<open>The email agent chat (AgentChat)\<close>

datatype role = User | Agent | Assistant

record message =
  role :: role
  content :: string

text \<open>The chat API: the request that \<open>api.chat\<close> posts, and a rejected promise.\<close>

record chat_request =
  message_r :: string
  email_id :: "string option"
  thread_email_ids :: "string list option"

datatype exn = Rejected

type_synonym chat_api = "chat_request \<Rightarrow> exn + string"

record agent_chat =
  history :: "string \<rightharpoonup> message list"
  input :: string
  isLoading_c :: bool

text \<open>Decimal digits of a number, for the template literals.\<close>

fun decimal :: "nat \<Rightarrow> string" where
  "decimal n = (if n < 10 then [char_of (48 + n)] else decimal (n div 10) @ [char_of (48 + n mod 10)])"

fun join :: "string \<Rightarrow> string list \<Rightarrow> string" where
  "join sep [] = []"
| "join sep [x] = x"
| "join sep (x # y # ys) = x @ sep @ join sep (y # ys)"

text \<open>
  \<open>chatKey\<close>: no key without a selection (null and the empty id are falsy); the
  sorted ids of the thread when more than one email is selected as context; the
  selected id otherwise.
\<close>

definition chatKey :: "string option \<Rightarrow> email list \<Rightarrow> string option" where
  "chatKey sel thread =
     (case sel of
        None \<Rightarrow> None
      | Some i \<Rightarrow>
          if i = [] then None
          else if length thread > 1
          then Some (''thread:'' @ join '','' (sort (map id' thread)))
          else Some (''email:'' @ i))"

definition greeting :: "email list \<Rightarrow> message" where
  "greeting thread =
     \<lparr>role = Agent,
      content =
        (if length thread > 1
         then ''Hi! I'' @ [CHR 0x27] @ ''m your Email Agent. I have context of all '' @
              decimal (length thread) @ '' emails in this thread. Ask me anything!''
         else ''Hi! I'' @ [CHR 0x27] @ ''m your Email Agent. Ask me anything about this email.'')\<rparr>"

text \<open>\<open>history[chatKey] || [greeting]\<close>\<close>

definition currentMessages :: "app_state \<Rightarrow> agent_chat \<Rightarrow> message list" where
  "currentMessages s c =
     (case chatKey (selectedEmailId s) (selectedThreadEmails s) of
        Some key \<Rightarrow>
          (case history c key of
             None \<Rightarrow> [greeting (selectedThreadEmails s)]
           | Some ms \<Rightarrow> ms)
      | None \<Rightarrow> [\<lparr>role = Agent, content = ''Select an email to start chatting.''\<rparr>])"

text \<open>\<open>setHistory(prev => ({...prev, [chatKey]: [...(prev[chatKey] || []), m]}))\<close>\<close>

definition append_turn :: "string \<Rightarrow> message \<Rightarrow> agent_chat \<Rightarrow> agent_chat" where
  "append_turn key m c =
     c\<lparr>history := (history c)(key \<mapsto> (case history c key of None \<Rightarrow> [] | Some ms \<Rightarrow> ms) @ [m])\<rparr>"

text \<open>The arguments of \<open>api.chat\<close>: the thread ids only when the context is a thread.\<close>

definition chat_request_of :: "app_state \<Rightarrow> string \<Rightarrow> chat_request" where
  "chat_request_of s userMsg =
     \<lparr>message_r = userMsg,
      email_id = selectedEmailId s,
      thread_email_ids =
        (if length (selectedThreadEmails s) > 1
         then Some (map id' (selectedThreadEmails s))
         else None)\<rparr>"

text \<open>
  \<open>try { ... } catch { ... } finally { ... }\<close> on a state: a pair of the pending
  exception, if any, and the state reached.
\<close>

definition catch_block :: "('s \<Rightarrow> 's) \<Rightarrow> exn option \<times> 's \<Rightarrow> exn option \<times> 's" where
  "catch_block handler r = (case fst r of None \<Rightarrow> r | Some e \<Rightarrow> (None, handler (snd r)))"

definition finally_block :: "('s \<Rightarrow> 's) \<Rightarrow> exn option \<times> 's \<Rightarrow> exn option \<times> 's" where
  "finally_block f r = (fst r, f (snd r))"

definition send_try :: "chat_api \<Rightarrow> app_state \<Rightarrow> string \<Rightarrow> string \<Rightarrow> agent_chat \<Rightarrow> exn option \<times> agent_chat" where
  "send_try api s key userMsg c =
     (case api (chat_request_of s userMsg) of
        Inl e \<Rightarrow> (Some e, c)
      | Inr response \<Rightarrow> (None, append_turn key \<lparr>role = Agent, content = response\<rparr> c))"

definition handleSend :: "chat_api \<Rightarrow> app_state \<Rightarrow> agent_chat \<Rightarrow> exn option \<times> agent_chat" where
  "handleSend api s c =
     (case chatKey (selectedEmailId s) (selectedThreadEmails s) of
        None \<Rightarrow> (None, c)
      | Some key \<Rightarrow>
          if trim (input c) = [] \<or> \<not> truthy_id (selectedEmailId s) then (None, c)
          else
            (let userMsg = input c;
                 c1 = c\<lparr>input := []\<rparr>;
                 prior = (case history c key of
                            None \<Rightarrow> [greeting (selectedThreadEmails s)]
                          | Some ms \<Rightarrow> ms);
                 c2 = c1\<lparr>history := (history c)(key \<mapsto> prior @ [\<lparr>role = User, content = userMsg\<rparr>])\<rparr>;
                 c3 = c2\<lparr>isLoading_c := True\<rparr>
             in finally_block (\<lambda>c. c\<lparr>isLoading_c := False\<rparr>)
                  (catch_block (append_turn key \<lparr>role = Agent, content = ''Sorry, I encountered an error.''\<rparr>)
                     (send_try api s key userMsg c3))))"

definition handleReset :: "app_state \<Rightarrow> agent_chat \<Rightarrow> agent_chat" where
  "handleReset s c =
     (case chatKey (selectedEmailId s) (selectedThreadEmails s) of
        None \<Rightarrow> c
      | Some key \<Rightarrow>
          c\<lparr>history := (history c)(key \<mapsto>
               [\<lparr>role = Agent,
                 content = (if length (selectedThreadEmails s) > 1
                            then ''Chat reset. How can I help you with this thread?''
                            else ''Chat reset. How can I help you with this email?'')\<rparr>])\<rparr>)"

section \<open>The general chat (components/Chat.tsx)\<close>

text \<open>A message carries the time of its creation; the clock is an input.\<close>

record chat_message =
  role_m :: role
  content_m :: string
  timestamp_m :: int

record general_chat =
  messages :: "chat_message list"
  input_g :: string
  isLoading_g :: bool

definition chat_try :: "chat_api \<Rightarrow> string \<Rightarrow> int \<Rightarrow> general_chat \<Rightarrow> exn option \<times> general_chat" where
  "chat_try api txt now g =
     (case api \<lparr>message_r = txt, email_id = None, thread_email_ids = None\<rparr> of
        Inl e \<Rightarrow> (Some e, g)
      | Inr response \<Rightarrow>
          (None, g\<lparr>messages := messages g @
                     [\<lparr>role_m = Assistant, content_m = response, timestamp_m = now\<rparr>]\<rparr>))"

definition handleSend_Chat :: "chat_api \<Rightarrow> int \<Rightarrow> int \<Rightarrow> general_chat \<Rightarrow> exn option \<times> general_chat" where
  "handleSend_Chat api now1 now2 g =
     (if trim (input_g g) = [] \<or> isLoading_g g then (None, g)
      else
        (let userMessage = \<lparr>role_m = User, content_m = input_g g, timestamp_m = now1\<rparr>;
             g1 = g\<lparr>messages := messages g @ [userMessage], input_g := [], isLoading_g := True\<rparr>
         in finally_block (\<lambda>g. g\<lparr>isLoading_g := False\<rparr>)
              (catch_block (\<lambda>g. g\<lparr>messages := messages g @
                              [\<lparr>role_m = Assistant,
                                content_m = ''Sorry, I encountered an error. Please try again.'',
                                timestamp_m = now2\<rparr>]\<rparr>)
                 (chat_try api (input_g g) now2 g1))))"

section \<open>The Gmail composer (components/GmailComposer.tsx)\<close>

text \<open>\<open>String.prototype.split\<close> on a one-character separator: never an empty array.\<close>

fun split :: "char \<Rightarrow> string \<Rightarrow> string list" where
  "split sep [] = [[]]"
| "split sep (c # cs) =
     (if c = sep then [] # split sep cs
      else (case split sep cs of
              [] \<Rightarrow> [[c]]
            | w # ws \<Rightarrow> (c # w) # ws))"

text \<open>\<open>value.split(",").map((entry) => entry.trim()).filter(Boolean)\<close>\<close>

definition parseRecipients :: "string \<Rightarrow> string list" where
  "parseRecipients v = filter (\<lambda>entry. entry \<noteq> []) (map trim (split CHR '','' v))"

record composer =
  to_c :: string
  cc_c :: string
  bcc_c :: string
  subject_c :: string
  body_c :: string
  isSending :: bool
  error :: "string option"

record composer_config =
  threadId :: "string option"
  inReplyTo :: "string option"

record send_payload =
  to_p :: "string list"
  cc_p :: "string list"
  bcc_p :: "string list"
  subject_p :: string
  body_p :: string
  thread_id_p :: "string option"
  in_reply_to_p :: "string option"

text \<open>
  What the composer awaits: the answer of \<open>api.sendGmail\<close> to a payload, and
  whether \<open>fetchEmails\<close> and \<open>fetchGmailStatus\<close> resolve. What it does besides
  changing its own state: the payloads passed to \<open>api.sendGmail\<close>, in order, and
  whether \<open>onClose\<close> was called.
\<close>

record composer_env =
  sendGmail :: "send_payload \<Rightarrow> exn + unit"
  fetchEmails_ok :: bool
  fetchGmailStatus_ok :: bool

record composer_result =
  composer_after :: composer
  sent :: "send_payload list"
  closed :: bool

definition handleSend_Composer ::
  "composer_env \<Rightarrow> composer_config \<Rightarrow> composer \<Rightarrow> composer_result" where
  "handleSend_Composer env config c =
     (let toList = parseRecipients (to_c c)
      in if length toList = 0
         then \<lparr>composer_after = c\<lparr>error := Some ''At least one recipient is required.''\<rparr>,
               sent = [], closed = False\<rparr>
         else
           (let c1 = c\<lparr>isSending := True, error := None\<rparr>;
                payload = \<lparr>to_p = toList, cc_p = parseRecipients (cc_c c),
                           bcc_p = parseRecipients (bcc_c c), subject_p = subject_c c,
                           body_p = body_c c, thread_id_p = threadId config,
                           in_reply_to_p = inReplyTo config\<rparr>;
                resolved = (case sendGmail env payload of
                              Inl e \<Rightarrow> False
                            | Inr u \<Rightarrow> fetchEmails_ok env \<and> fetchGmailStatus_ok env);
                c2 = (if resolved then c1
                      else c1\<lparr>error := Some
                        ''Unable to send email. Please recheck recipients and try again.''\<rparr>)
            in \<lparr>composer_after = c2\<lparr>isSending := False\<rparr>, sent = [payload],
                closed = resolved\<rparr>))"

section \<open>The retrieval context builder\<close>

text \<open>
  Modelled from the spec: the Retrieval Context Builder (section 4.4) runs in the
  back end, which is not among the sources; the front end only posts the chat
  request. Following the spec: the focus is a single email id or an ordered list of
  thread email ids; the focus emails enter the context as they are stored; the
  semantic query ranks the corpus by descending similarity to the query text, and up
  to \<open>top_k\<close> emails not already present via the focus are taken from that ranking;
  when the bundle exceeds the input budget, retrieved items are dropped from the low
  end of the ranking, and focus emails are never dropped. The ranking, the cost of
  an email against the budget and the budget are parameters.
\<close>

datatype focus = No_focus | Focus_email string | Focus_thread "string list"

definition focus_ids :: "focus \<Rightarrow> string list" where
  "focus_ids f = (case f of No_focus \<Rightarrow> [] | Focus_email i \<Rightarrow> [i] | Focus_thread is \<Rightarrow> is)"

definition lookup_email :: "email list \<Rightarrow> string \<Rightarrow> email list" where
  "lookup_email corpus i = (case find (\<lambda>e. id' e = i) corpus of None \<Rightarrow> [] | Some e \<Rightarrow> [e])"

definition focus_emails :: "email list \<Rightarrow> focus \<Rightarrow> email list" where
  "focus_emails corpus f = concat (map (lookup_email corpus) (focus_ids f))"

text \<open>
  Modelled from the spec: up to \<open>top_k\<close> emails of the ranking, excluding anything
  already present via the focus.
\<close>

definition retrieve :: "email list \<Rightarrow> focus \<Rightarrow> nat \<Rightarrow> email list" where
  "retrieve ranked f top_k = take top_k (filter (\<lambda>e. id' e \<notin> set (focus_ids f)) ranked)"

definition bundle_cost :: "(email \<Rightarrow> nat) \<Rightarrow> email list \<Rightarrow> nat" where
  "bundle_cost cost es = sum_list (map cost es)"

text \<open>
  Modelled from the spec: while the bundle exceeds the budget, the retrieved item of
  lowest similarity is dropped; the focus emails are never dropped.
\<close>

function truncate_retrieved ::
  "(email \<Rightarrow> nat) \<Rightarrow> nat \<Rightarrow> email list \<Rightarrow> email list \<Rightarrow> email list" where
  "truncate_retrieved cost budget fixed retrieved =
     (if retrieved \<noteq> [] \<and> bundle_cost cost (fixed @ retrieved) > budget
      then truncate_retrieved cost budget fixed (butlast retrieved)
      else retrieved)"
  by pat_completeness auto
termination
  by (relation "measure (\<lambda>(cost, budget, fixed, retrieved). length retrieved)") auto

text \<open>
  Modelled from the spec: the final bundle, the focus emails followed by the ranked
  retrieved emails that fit.
\<close>

definition build_context ::
  "email list \<Rightarrow> email list \<Rightarrow> focus \<Rightarrow> nat \<Rightarrow> (email \<Rightarrow> nat) \<Rightarrow> nat \<Rightarrow> email list" where
  "build_context corpus ranked f top_k cost budget =
     (let fixed = focus_emails corpus f
      in fixed @ truncate_retrieved cost budget fixed (retrieve ranked f top_k))"

section \<open>Example data\<close>

definition mk_email ::
  "string \<Rightarrow> string \<Rightarrow> string option \<Rightarrow> string option \<Rightarrow> action_item list option \<Rightarrow> email" where
  "mk_email i subj src thr items =
     \<lparr>id' = i, sender = ''ann@example.com'', subject = subj, body = ''Please review.'',
      timestamp = ''2024-01-01T10:00:00Z'', read = False, category = None,
      action_items = items, source = src, snippet = None, to' = None, cc = None,
      bcc = None, thread_id = thr, message_id = None, history_id = None,
      label_ids = None, internal_date = None\<rparr>"

definition mk_item :: "string \<Rightarrow> bool option \<Rightarrow> action_item" where
  "mk_item t flag = \<lparr>task = t, deadline = None, completed = flag\<rparr>"

definition mk_state :: "email list \<Rightarrow> email list \<Rightarrow> app_state" where
  "mk_state shown all =
     \<lparr>emails = shown, allEmails = all, selectedEmailId = None, selectedThreadEmails = [],
      isLoading = False, gmailStatus = None\<rparr>"

definition connected :: "gmail_status" where
  "connected =
     \<lparr>authenticated = True, email_address = None, last_sync = None, last_manual_sync = None,
      history_id_s = None, total_synced = None, scopes = None\<rparr>"

definition three_items :: "action_item list" where
  "three_items = [mk_item ''call'' None, mk_item ''reply'' (Some False), mk_item ''pay'' (Some True)]"

definition one_email_state :: app_state where
  "one_email_state = mk_state [] [mk_email ''e1'' ''Hi'' None None (Some three_items)]"

definition mock_email :: email where
  "mock_email = mk_email ''m1'' ''Hello'' (Some ''mock'') (Some ''t1'') None"

definition gmail_email :: email where
  "gmail_email = mk_email ''g1'' ''Hi'' (Some ''Gmail'') None None"

definition work_event :: email where
  "work_event = mock_email\<lparr>category := Some ''Work''\<rparr>"

definition synced_state :: app_state where
  "synced_state = mk_state [mock_email] [mock_email, gmail_email]"


definition groq_stream :: "sse_line list list" where
  "groq_stream =
     [[Data (Category_event work_event)],
      [Not_data, Data (Error_event (Some ''Error calling Groq: rate limit'')),
       Data (Action_items_event (mock_email\<lparr>action_items := Some three_items\<rparr>))],
      [Data Complete_event]]"

definition ollama_stream :: "sse_line list list" where
  "ollama_stream =
     [[Data (Error_event (Some ''Error calling Ollama: connection refused'')),
       Data (Category_event work_event)]]"

definition failing_api :: chat_api where
  "failing_api = (\<lambda>req. Inl Rejected)"

definition answering_api :: chat_api where
  "answering_api = (\<lambda>req. Inr ''It is a greeting.'')"

definition selected_state :: app_state where
  "selected_state = synced_state\<lparr>selectedEmailId := Some ''m1'', selectedThreadEmails := [mock_email]\<rparr>"

definition asking :: agent_chat where
  "asking =
     \<lparr>history = [''email:g1'' \<mapsto> [\<lparr>role = User, content = ''Who wrote this?''\<rparr>]],
      input = ''What is this?'', isLoading_c = False\<rparr>"

definition asking_general :: general_chat where
  "asking_general = \<lparr>messages = [], input_g = ''Any news?'', isLoading_g = False\<rparr>"

definition reply_email :: email where
  "reply_email = mk_email ''m2'' ''RE: hello'' (Some ''mock'') (Some ''t2'') None"

definition inbox_state :: app_state where
  "inbox_state = mk_state [mock_email, reply_email] [mock_email, reply_email]"

definition example_clock :: "string \<Rightarrow> int option" where
  "example_clock d = (if d = ''2024-01-01T10:00:00Z'' then Some 1704103200000 else None)"

definition keep_order :: "int option list \<Rightarrow> nat list" where
  "keep_order keys = [0..<length keys]"

definition two_clicks :: "event list" where
  "two_clicks = [Store_action (\<lambda>s. inbox_state), Click Inbox ''all'' 0 0, Click Inbox ''all'' 0 0]"

definition hello_thread :: "email list \<Rightarrow> email_thread" where
  "hello_thread es =
     \<lparr>id_t = ''hello'', subject_t = ''Hello'', emails_t = es,
      latestTimestamp = ''2024-01-01T10:00:00Z'', hasUnread = True\<rparr>"

definition blank_composer :: composer where
  "blank_composer =
     \<lparr>to_c = [CHR 0x20, CHR '','', CHR 0xC2, CHR 0xA0], cc_c = [], bcc_c = [], subject_c = ''Hi'', body_c = ''Hello.'',
      isSending = False, error = None\<rparr>"

definition accepting_env :: composer_env where
  "accepting_env = \<lparr>sendGmail = (\<lambda>p. Inr ()), fetchEmails_ok = True, fetchGmailStatus_ok = True\<rparr>"

definition new_mail :: composer_config where
  "new_mail = \<lparr>threadId = None, inReplyTo = None\<rparr>"

section \<open>Properties of the store\<close>

subsection \<open>Indexed map and filter\<close>

lemma length_map_index [simp]: "length (map_index f xs) = length xs"
  by (simp add: map_index_def)

lemma nth_map_index [simp]: "k < length xs \<Longrightarrow> map_index f xs ! k = f (xs ! k) k"
  by (simp add: map_index_def nth_enumerate_eq)

lemma filter_enumerate_neq:
  "map snd (filter (\<lambda>(idx, x). idx \<noteq> n + i) (enumerate n xs)) = take i xs @ drop (Suc i) xs"
proof (induction xs arbitrary: n i)
  case Nil
  then show ?case by simp
next
  case (Cons x xs)
  show ?case
  proof (cases i)
    case 0
    have "filter (\<lambda>(idx, x). idx \<noteq> n) (enumerate (Suc n) xs) = enumerate (Suc n) xs"
      by (rule filter_True) (auto simp: in_set_enumerate_eq)
    then have "map snd (filter (\<lambda>(idx, x). idx \<noteq> n) (enumerate (Suc n) xs)) = xs"
      by simp
    with 0 show ?thesis by simp
  next
    case (Suc j)
    with Cons.IH [of "Suc n" j] show ?thesis by simp
  qed
qed

lemma filter_index_neq: "filter_index (\<lambda>_ idx. idx \<noteq> i) xs = take i xs @ drop (Suc i) xs"
  using filter_enumerate_neq [of 0 i xs] by (simp add: filter_index_def)

subsection \<open>deleteActionItem\<close>

lemma delete_email_other: "id' e \<noteq> emailId \<Longrightarrow> delete_email emailId i e = e"
  by (simp add: delete_email_def split: option.splits)

lemma delete_email_hit:
  "id' e = emailId \<Longrightarrow> action_items e = Some items \<Longrightarrow>
   delete_email emailId i e = e\<lparr>action_items := Some (take i items @ drop (Suc i) items)\<rparr>"
  by (simp add: delete_email_def filter_index_neq)

lemma deleteActionItem_views:
  "view = emails \<or> view = allEmails \<Longrightarrow>
   view (deleteActionItem emailId i s) = map (delete_email emailId i) (view s)"
  by (auto simp: deleteActionItem_def)

text \<open>
  C6: in either list of the store, for an email with the given id whose action-item
  list has length \<open>n\<close> and an index \<open>i < n\<close>, deleting item \<open>i\<close> leaves a list of
  length \<open>n - 1\<close> in which the items below \<open>i\<close> keep their index and the items above
  \<open>i\<close> move down by one; nothing else of that email changes, the list of emails
  keeps its length, and every email with another id is unchanged.
\<close>

theorem deleteActionItem_compacts:
  assumes view: "view = emails \<or> view = allEmails"
    and k: "k < length (view s)"
    and hit: "id' (view s ! k) = emailId"
    and items: "action_items (view s ! k) = Some items"
    and i: "i < length items"
  shows "length (view (deleteActionItem emailId i s)) = length (view s) \<and>
         (\<exists>items'. view (deleteActionItem emailId i s) ! k = (view s ! k)\<lparr>action_items := Some items'\<rparr> \<and>
            length items' = length items - 1 \<and>
            (\<forall>j < i. items' ! j = items ! j) \<and>
            (\<forall>j. i \<le> j \<and> j < length items - 1 \<longrightarrow> items' ! j = items ! Suc j)) \<and>
         (\<forall>m < length (view s). id' (view s ! m) \<noteq> emailId \<longrightarrow>
            view (deleteActionItem emailId i s) ! m = view s ! m)"
proof -
  let ?items' = "take i items @ drop (Suc i) items"
  have v: "view (deleteActionItem emailId i s) = map (delete_email emailId i) (view s)"
    using view by (rule deleteActionItem_views)
  have len: "length ?items' = length items - 1"
    using i by simp
  have low: "\<forall>j < i. ?items' ! j = items ! j"
    using i by (simp add: nth_append)
  have high: "\<forall>j. i \<le> j \<and> j < length items - 1 \<longrightarrow> ?items' ! j = items ! Suc j"
    using i by (auto simp: nth_append min_def)
  have at_k: "view (deleteActionItem emailId i s) ! k = (view s ! k)\<lparr>action_items := Some ?items'\<rparr>"
    using k hit items by (simp add: v delete_email_hit)
  have others: "\<forall>m < length (view s). id' (view s ! m) \<noteq> emailId \<longrightarrow>
      view (deleteActionItem emailId i s) ! m = view s ! m"
    by (simp add: v delete_email_other)
  from len low high at_k have "\<exists>items'. view (deleteActionItem emailId i s) ! k = (view s ! k)\<lparr>action_items := Some items'\<rparr> \<and>
            length items' = length items - 1 \<and>
            (\<forall>j < i. items' ! j = items ! j) \<and>
            (\<forall>j. i \<le> j \<and> j < length items - 1 \<longrightarrow> items' ! j = items ! Suc j)"
    by blast
  with others show ?thesis by (simp add: v)
qed

theorem deleteActionItem_compacts_witness:
  "length (allEmails (deleteActionItem ''e1'' 1 one_email_state)) = 1 \<and>
   (\<exists>items'. allEmails (deleteActionItem ''e1'' 1 one_email_state) ! 0
        = (allEmails one_email_state ! 0)\<lparr>action_items := Some items'\<rparr> \<and>
      length items' = 2 \<and>
      items' ! 0 = mk_item ''call'' None \<and>
      items' ! 1 = mk_item ''pay'' (Some True))"
proof -
  have "length (allEmails (deleteActionItem ''e1'' 1 one_email_state)) = length (allEmails one_email_state) \<and>
   (\<exists>items'. allEmails (deleteActionItem ''e1'' 1 one_email_state) ! 0
        = (allEmails one_email_state ! 0)\<lparr>action_items := Some items'\<rparr> \<and>
      length items' = length three_items - 1 \<and>
      (\<forall>j < 1. items' ! j = three_items ! j) \<and>
      (\<forall>j. 1 \<le> j \<and> j < length three_items - 1 \<longrightarrow> items' ! j = three_items ! Suc j)) \<and>
   (\<forall>m < length (allEmails one_email_state). id' (allEmails one_email_state ! m) \<noteq> ''e1'' \<longrightarrow>
      allEmails (deleteActionItem ''e1'' 1 one_email_state) ! m = allEmails one_email_state ! m)"
    by (rule deleteActionItem_compacts)
      (simp_all add: one_email_state_def mk_state_def mk_email_def three_items_def)
  then obtain items' where
    at: "allEmails (deleteActionItem ''e1'' 1 one_email_state) ! 0
           = (allEmails one_email_state ! 0)\<lparr>action_items := Some items'\<rparr>"
    and len: "length items' = length three_items - 1"
    and low: "\<forall>j < 1. items' ! j = three_items ! j"
    and high: "\<forall>j. 1 \<le> j \<and> j < length three_items - 1 \<longrightarrow> items' ! j = three_items ! Suc j"
    and n: "length (allEmails (deleteActionItem ''e1'' 1 one_email_state)) = length (allEmails one_email_state)"
    by blast
  have "length items' = 2" using len by (simp add: three_items_def)
  moreover have "items' ! 0 = mk_item ''call'' None" using low by (simp add: three_items_def)
  moreover have "items' ! 1 = mk_item ''pay'' (Some True)"
    using high [rule_format, of 1] by (simp add: three_items_def)
  moreover have "length (allEmails (deleteActionItem ''e1'' 1 one_email_state)) = 1"
    using n by (simp add: one_email_state_def mk_state_def)
  ultimately show ?thesis using at by blast
qed

subsection \<open>toggleActionItem\<close>

lemma toggle_email_other:
  "id' e \<noteq> emailId \<or> action_items e = None \<Longrightarrow> toggle_email emailId i e = e"
  by (auto simp: toggle_email_def split: option.splits)

lemma toggle_email_hit:
  "id' e = emailId \<Longrightarrow> action_items e = Some items \<Longrightarrow>
   toggle_email emailId i e = e\<lparr>action_items := Some (map_index (toggle_item i) items)\<rparr>"
  by (simp add: toggle_email_def)

lemma toggle_items_twice:
  "map_index (toggle_item i) (map_index (toggle_item i) items) =
   map_index (\<lambda>item idx. if idx = i then item\<lparr>completed := Some (\<not> js_not (completed item))\<rparr> else item) items"
  by (rule nth_equalityI) (auto simp: toggle_item_def js_not_def)

lemma toggle_items_twice_present:
  assumes "i < length items \<longrightarrow> completed (items ! i) \<noteq> None"
  shows "map_index (toggle_item i) (map_index (toggle_item i) items) = items"
  unfolding toggle_items_twice
  using assms by (intro nth_equalityI) (auto simp: js_not_def)

lemma toggle_email_twice_present:
  assumes "\<forall>items. id' e = emailId \<and> action_items e = Some items \<and> i < length items
             \<longrightarrow> completed (items ! i) \<noteq> None"
  shows "toggle_email emailId i (toggle_email emailId i e) = e"
proof (cases "id' e = emailId \<and> action_items e \<noteq> None")
  case True
  then obtain items where items: "action_items e = Some items" by blast
  with True assms have "i < length items \<longrightarrow> completed (items ! i) \<noteq> None" by simp
  then show ?thesis
    using True items by (simp add: toggle_email_def toggle_items_twice_present)
next
  case False
  then show ?thesis by (auto simp: toggle_email_other)
qed

lemma toggleActionItem_views:
  "view = emails \<or> view = allEmails \<Longrightarrow>
   view (toggleActionItem emailId i s) = map (toggle_email emailId i) (view s)"
  by (auto simp: toggleActionItem_def)

text \<open>
  C9, as amended: in either list of the store, one toggle at index \<open>i\<close> changes only
  the emails with the given id that have action items, only their item \<open>i\<close>, and
  only its completed flag, which becomes the negation of its truth value (an absent
  flag counts as false). Two toggles give back the store as it was whenever the
  flag of item \<open>i\<close> is present in every such email.
\<close>

theorem toggleActionItem_flips:
  "(\<forall>view \<in> {emails, allEmails}.
      length (view (toggleActionItem emailId i s)) = length (view s) \<and>
      (\<forall>k < length (view s).
         (id' (view s ! k) \<noteq> emailId \<or> action_items (view s ! k) = None \<longrightarrow>
            view (toggleActionItem emailId i s) ! k = view s ! k) \<and>
         (\<forall>items. id' (view s ! k) = emailId \<and> action_items (view s ! k) = Some items \<longrightarrow>
            (\<exists>items'. view (toggleActionItem emailId i s) ! k = (view s ! k)\<lparr>action_items := Some items'\<rparr> \<and>
               length items' = length items \<and>
               (\<forall>j < length items. items' ! j =
                  (if j = i then (items ! j)\<lparr>completed := Some (js_not (completed (items ! j)))\<rparr>
                   else items ! j)))))) \<and>
   ((\<forall>e \<in> set (emails s) \<union> set (allEmails s). \<forall>items.
        id' e = emailId \<and> action_items e = Some items \<and> i < length items
          \<longrightarrow> completed (items ! i) \<noteq> None)
      \<longrightarrow> toggleActionItem emailId i (toggleActionItem emailId i s) = s)"
proof (intro conjI ballI impI)
  fix view :: "app_state \<Rightarrow> email list"
  assume "view \<in> {emails, allEmails}"
  then have v: "view (toggleActionItem emailId i s) = map (toggle_email emailId i) (view s)"
    by (intro toggleActionItem_views) auto
  show "length (view (toggleActionItem emailId i s)) = length (view s)"
    by (simp add: v)
  show "\<forall>k < length (view s).
         (id' (view s ! k) \<noteq> emailId \<or> action_items (view s ! k) = None \<longrightarrow>
            view (toggleActionItem emailId i s) ! k = view s ! k) \<and>
         (\<forall>items. id' (view s ! k) = emailId \<and> action_items (view s ! k) = Some items \<longrightarrow>
            (\<exists>items'. view (toggleActionItem emailId i s) ! k = (view s ! k)\<lparr>action_items := Some items'\<rparr> \<and>
               length items' = length items \<and>
               (\<forall>j < length items. items' ! j =
                  (if j = i then (items ! j)\<lparr>completed := Some (js_not (completed (items ! j)))\<rparr>
                   else items ! j))))"
  proof (intro allI impI conjI)
    fix k assume k: "k < length (view s)"
    { assume "id' (view s ! k) \<noteq> emailId \<or> action_items (view s ! k) = None"
      then show "view (toggleActionItem emailId i s) ! k = view s ! k"
        using k by (simp add: v toggle_email_other) }
    { fix items
      assume h: "id' (view s ! k) = emailId \<and> action_items (view s ! k) = Some items"
      let ?items' = "map_index (toggle_item i) items"
      have "view (toggleActionItem emailId i s) ! k = (view s ! k)\<lparr>action_items := Some ?items'\<rparr>"
        using k h by (simp add: v toggle_email_hit)
      moreover have "length ?items' = length items" by simp
      moreover have "\<forall>j < length items. ?items' ! j =
                  (if j = i then (items ! j)\<lparr>completed := Some (js_not (completed (items ! j)))\<rparr>
                   else items ! j)"
        by (simp add: toggle_item_def)
      ultimately show "\<exists>items'. view (toggleActionItem emailId i s) ! k = (view s ! k)\<lparr>action_items := Some items'\<rparr> \<and>
               length items' = length items \<and>
               (\<forall>j < length items. items' ! j =
                  (if j = i then (items ! j)\<lparr>completed := Some (js_not (completed (items ! j)))\<rparr>
                   else items ! j))"
        by blast }
  qed
next
  assume present: "\<forall>e \<in> set (emails s) \<union> set (allEmails s). \<forall>items.
        id' e = emailId \<and> action_items e = Some items \<and> i < length items
          \<longrightarrow> completed (items ! i) \<noteq> None"
  have twice: "toggle_email emailId i (toggle_email emailId i e) = e"
    if "e \<in> set (emails s) \<union> set (allEmails s)" for e
    using present that by (intro toggle_email_twice_present) blast
  have "map (toggle_email emailId i \<circ> toggle_email emailId i) (emails s) = emails s"
    by (rule map_idI) (simp add: twice)
  moreover have "map (toggle_email emailId i \<circ> toggle_email emailId i) (allEmails s) = allEmails s"
    by (rule map_idI) (simp add: twice)
  ultimately show "toggleActionItem emailId i (toggleActionItem emailId i s) = s"
    by (simp add: toggleActionItem_def)
qed

theorem toggleActionItem_flips_witness:
  "toggleActionItem ''e1'' 1 (toggleActionItem ''e1'' 1 one_email_state) = one_email_state"
proof -
  have present: "\<forall>e \<in> set (emails one_email_state) \<union> set (allEmails one_email_state). \<forall>items.
      id' e = ''e1'' \<and> action_items e = Some items \<and> 1 < length items
        \<longrightarrow> completed (items ! 1) \<noteq> None"
    by (auto simp: one_email_state_def mk_state_def mk_email_def three_items_def mk_item_def)
  from toggleActionItem_flips [of "''e1''" 1 one_email_state, THEN conjunct2, THEN mp, OF present]
  show ?thesis .
qed

text \<open>
  With an absent completed flag two toggles do not give back the store: the flag
  ends as an explicit false.
\<close>

theorem toggleActionItem_twice_counterexample:
  "toggleActionItem ''e1'' 0
     (toggleActionItem ''e1'' 0
        (mk_state [] [mk_email ''e1'' ''Hi'' None None (Some [mk_item ''a'' None])]))
   \<noteq> mk_state [] [mk_email ''e1'' ''Hi'' None None (Some [mk_item ''a'' None])]"
  by (simp add: toggleActionItem_def toggle_email_def toggle_item_def map_index_def
      mk_state_def mk_email_def mk_item_def js_not_def)

subsection \<open>filterEmailsForDisplay\<close>

lemma toLowerCase_gmail: "toLowerCase ''gmail'' = ''gmail''" "toLowerCase ''gmail_draft'' = ''gmail_draft''"
  by code_simp+

lemma filterEmailsForDisplay_set:
  "set (filterEmailsForDisplay es st) =
     {e \<in> set es. is_gmail_source e = status_authenticated st}"
  by (auto simp: filterEmailsForDisplay_def)

text \<open>
  C2, as amended: under an authenticated status every displayed email has a source
  that is, letter case apart, \<open>gmail\<close> or \<open>gmail_draft\<close>; under a status that is
  not authenticated (or absent) no displayed email has such a source, in any letter
  case; and every email of the input list is displayed under exactly one of the
  two kinds of status, the two views together having the length of the list.
\<close>

theorem filterEmailsForDisplay_exclusive:
  "(status_authenticated st \<longrightarrow>
      (\<forall>e \<in> set (filterEmailsForDisplay es st).
         \<exists>src. source e = Some src \<and>
           (toLowerCase src = ''gmail'' \<or> toLowerCase src = ''gmail_draft''))) \<and>
   (\<not> status_authenticated st \<longrightarrow>
      (\<forall>e \<in> set (filterEmailsForDisplay es st).
         source e \<noteq> Some ''gmail'' \<and> source e \<noteq> Some ''gmail_draft'' \<and>
         (\<forall>src. source e = Some src \<longrightarrow>
            toLowerCase src \<noteq> ''gmail'' \<and> toLowerCase src \<noteq> ''gmail_draft''))) \<and>
   (status_authenticated st1 \<and> \<not> status_authenticated st2 \<longrightarrow>
      (\<forall>e \<in> set es.
         (e \<in> set (filterEmailsForDisplay es st1)) \<noteq> (e \<in> set (filterEmailsForDisplay es st2))) \<and>
      length (filterEmailsForDisplay es st1) + length (filterEmailsForDisplay es st2) = length es)"
proof (intro conjI impI ballI)
  fix e
  assume "status_authenticated st" "e \<in> set (filterEmailsForDisplay es st)"
  then have "is_gmail_source e" by (simp add: filterEmailsForDisplay_set)
  then show "\<exists>src. source e = Some src \<and>
           (toLowerCase src = ''gmail'' \<or> toLowerCase src = ''gmail_draft'')"
    by (auto simp: is_gmail_source_def split: option.splits)
next
  fix e
  assume "\<not> status_authenticated st" "e \<in> set (filterEmailsForDisplay es st)"
  then have no: "\<not> is_gmail_source e" by (simp add: filterEmailsForDisplay_set)
  then show "source e \<noteq> Some ''gmail''" "source e \<noteq> Some ''gmail_draft''"
    by (auto simp: is_gmail_source_def toLowerCase_gmail)
  from no show "\<forall>src. source e = Some src \<longrightarrow>
            toLowerCase src \<noteq> ''gmail'' \<and> toLowerCase src \<noteq> ''gmail_draft''"
    by (auto simp: is_gmail_source_def)
next
  fix e
  assume "status_authenticated st1 \<and> \<not> status_authenticated st2" "e \<in> set es"
  then show "(e \<in> set (filterEmailsForDisplay es st1)) \<noteq> (e \<in> set (filterEmailsForDisplay es st2))"
    by (auto simp: filterEmailsForDisplay_set)
next
  assume "status_authenticated st1 \<and> \<not> status_authenticated st2"
  then show "length (filterEmailsForDisplay es st1) + length (filterEmailsForDisplay es st2) = length es"
    by (simp add: filterEmailsForDisplay_def sum_length_filter_compl)
qed

theorem filterEmailsForDisplay_exclusive_witness:
  "\<exists>src. source (gmail_email) = Some src \<and>
     (toLowerCase src = ''gmail'' \<or> toLowerCase src = ''gmail_draft'')"
proof -
  have low: "toLowerCase ''Gmail'' = ''gmail''" by code_simp
  have auth: "status_authenticated (Some connected)"
    by (simp add: status_authenticated_def connected_def)
  have shown: "gmail_email
      \<in> set (filterEmailsForDisplay [gmail_email] (Some connected))"
    using auth by (simp add: filterEmailsForDisplay_def is_gmail_source_def gmail_email_def mk_email_def low)
  from filterEmailsForDisplay_exclusive
    [of "Some connected" "[gmail_email]",
      THEN conjunct1, THEN mp, OF auth, THEN bspec, OF shown]
  show ?thesis .
qed

text \<open>
  An email whose source is written \<open>Gmail\<close> is displayed under an authenticated
  status, and its source is neither of the two literals.
\<close>

theorem filterEmailsForDisplay_source_counterexample:
  "status_authenticated (Some connected) \<and>
   filterEmailsForDisplay [gmail_email] (Some connected)
     = [gmail_email] \<and>
   source (gmail_email) \<noteq> Some ''gmail'' \<and>
   source (gmail_email) \<noteq> Some ''gmail_draft''"
proof -
  have low: "toLowerCase ''Gmail'' = ''gmail''" by code_simp
  show ?thesis
    by (simp add: filterEmailsForDisplay_def is_gmail_source_def status_authenticated_def
        connected_def gmail_email_def mk_email_def low)
qed

subsection \<open>The progress events\<close>

lemma is_gmail_source_set_category [simp]:
  "is_gmail_source (set_category u e) = is_gmail_source e"
  by (simp add: is_gmail_source_def set_category_def)

lemma is_gmail_source_set_action_items [simp]:
  "is_gmail_source (set_action_items u e) = is_gmail_source e"
  by (simp add: is_gmail_source_def set_action_items_def)





section \<open>Properties of the ingestion run\<close>

subsection \<open>The event stream\<close>

lemma handle_line_Continue:
  "handle_line st f l r = (Continue, r1) \<Longrightarrow>
   hasShownError r1 = hasShownError r \<and> alerts r1 = alerts r"
  by (cases "(st, f, l, r)" rule: handle_line.cases)
    (auto simp: refresh_def Let_def split: if_splits option.splits)

lemma process_lines_Continue:
  "process_lines st f ls r = (Continue, r1) \<Longrightarrow>
   hasShownError r1 = hasShownError r \<and> alerts r1 = alerts r"
proof (induction ls arbitrary: r)
  case Nil
  then show ?case by simp
next
  case (Cons l ls)
  obtain out r' where h: "handle_line st f l r = (out, r')" by (cases "handle_line st f l r")
  with Cons.prems have out: "out = Continue" and rest: "process_lines st f ls r' = (Continue, r1)"
    by (cases out; simp)+
  from h out have "hasShownError r' = hasShownError r \<and> alerts r' = alerts r"
    by (simp add: handle_line_Continue)
  with Cons.IH [OF rest] show ?case by simp
qed

lemma process_chunks_Continue:
  "process_chunks st f cs r = (Continue, r1) \<Longrightarrow>
   hasShownError r1 = hasShownError r \<and> alerts r1 = alerts r"
proof (induction cs arbitrary: r)
  case Nil
  then show ?case by simp
next
  case (Cons c cs)
  obtain out r' where h: "process_lines st f c r = (out, r')" by (cases "process_lines st f c r")
  with Cons.prems have out: "out = Continue" and rest: "process_chunks st f cs r' = (Continue, r1)"
    by (cases out; simp)+
  from h out have "hasShownError r' = hasShownError r \<and> alerts r' = alerts r"
    by (simp add: process_lines_Continue)
  with Cons.IH [OF rest] show ?case by simp
qed

lemma process_lines_append:
  "process_lines st f xs r = (Continue, r1) \<Longrightarrow>
   process_lines st f (xs @ ys) r = process_lines st f ys r1"
proof (induction xs arbitrary: r)
  case Nil
  then show ?case by simp
next
  case (Cons l ls)
  obtain out r' where h: "handle_line st f l r = (out, r')" by (cases "handle_line st f l r")
  with Cons.prems have out: "out = Continue" and rest: "process_lines st f ls r' = (Continue, r1)"
    by (cases out; simp)+
  from Cons.IH [OF rest] h out show ?case by simp
qed

lemma process_chunks_snoc:
  "process_chunks st f (cs @ [pre]) r = (Continue, r1) \<Longrightarrow>
   process_chunks st f (cs @ (pre @ ls) # later) r =
     (case process_lines st f ls r1 of
        (Continue, r2) \<Rightarrow> process_chunks st f later r2
      | (Returned, r2) \<Rightarrow> (Returned, r2)
      | (Thrown, r2) \<Rightarrow> (Thrown, r2))"
proof (induction cs arbitrary: r)
  case Nil
  obtain out r' where h: "process_lines st f pre r = (out, r')" by (cases "process_lines st f pre r")
  with Nil have out: "out = Continue" and r': "r' = r1"
    by (cases out; simp)+
  from h out r' show ?case by (simp add: process_lines_append)
next
  case (Cons c cs)
  obtain out r' where h: "process_lines st f c r = (out, r')" by (cases "process_lines st f c r")
  with Cons.prems have out: "out = Continue"
    and rest: "process_chunks st f (cs @ [pre]) r' = (Continue, r1)"
    by (cases out; simp)+
  from Cons.IH [OF rest] h out show ?case by simp
qed

lemma groq_error_line:
  assumes "includes_str m ''Error calling Groq''" and "\<not> hasShownError r"
  shows "process_lines st f (Data (Error_event (Some m)) # rest) r =
     (case f (fetches r) of
        Some all \<Rightarrow>
          (Returned,
           r\<lparr>hasShownError := True, alerts := alerts r @ [alert_text (Some m)],
             store := (store r)\<lparr>allEmails := all, emails := filterEmailsForDisplay all st\<rparr>,
             fetches := Suc (fetches r)\<rparr>)
      | None \<Rightarrow>
          (Thrown,
           r\<lparr>hasShownError := True, alerts := alerts r @ [alert_text (Some m)],
             fetches := Suc (fetches r)\<rparr>))"
  using assms
  by (simp add: is_groq_error_def show_error_def refresh_def Let_def split: option.splits)

lemma other_error_line:
  assumes "\<not> is_groq_error message"
  shows "process_lines st f (Data (Error_event message) # rest) r = process_lines st f rest r"
  using assms by simp

text \<open>
  C3, as amended: when the stream delivers an error event whose message contains
  \<open>Error calling Groq\<close>, after chunks and lines that were all handled without a
  return or a throw, the run ends there, whatever follows in the stream: the one
  alert of the run carries the message as it came, the lists of the store are
  replaced by the answer of a fresh \<open>api.getEmails\<close> (the rest of the store is as
  the earlier events left it), and \<open>isLoading\<close> is cleared; when that fetch fails
  the run ends with the failure and the lists stay as the earlier events left them.
  An error event with any other message, or with none, is passed over, and the
  lines after it are handled as if it were not there.
\<close>

theorem groq_error_stops:
  assumes groq: "includes_str m ''Error calling Groq''"
    and before: "process_chunks (gmailStatus s) fetch (cs @ [pre])
        \<lparr>store = s\<lparr>isLoading := True\<rparr>, alerts = [], hasShownError = False, fetches = 0\<rparr>
          = (Continue, r)"
  shows "ingestEmails (Body (cs @ (pre @ Data (Error_event (Some m)) # rest) # later)) fetch s =
     (case fetch (fetches r) of
        Some all \<Rightarrow>
          (Returned,
           r\<lparr>hasShownError := True, alerts := [alert_text (Some m)],
             store := (store r)\<lparr>allEmails := all,
                                emails := filterEmailsForDisplay all (gmailStatus s),
                                isLoading := False\<rparr>,
             fetches := Suc (fetches r)\<rparr>)
      | None \<Rightarrow>
          (Thrown,
           r\<lparr>hasShownError := True, alerts := [alert_text (Some m)],
             store := (store r)\<lparr>isLoading := False\<rparr>,
             fetches := Suc (fetches r)\<rparr>)) \<and>
     (\<not> is_groq_error message \<longrightarrow>
        process_lines status fetch (Data (Error_event message) # rest) r' =
          process_lines status fetch rest r')"
proof -
  let ?st = "gmailStatus s"
  let ?r0 = "\<lparr>store = s\<lparr>isLoading := True\<rparr>, alerts = [], hasShownError = False, fetches = 0\<rparr>"
  let ?err = "Data (Error_event (Some m))"
  from process_chunks_Continue [OF before]
  have flag: "\<not> hasShownError r" and quiet: "alerts r = []" by simp_all
  note line = groq_error_line [OF groq flag, of ?st fetch rest]
  note chunks = process_chunks_snoc [OF before, of "?err # rest" later]
  have stops: "ingestEmails (Body (cs @ (pre @ ?err # rest) # later)) fetch s =
     (case fetch (fetches r) of
        Some all \<Rightarrow>
          (Returned,
           r\<lparr>hasShownError := True, alerts := [alert_text (Some m)],
             store := (store r)\<lparr>allEmails := all,
                                emails := filterEmailsForDisplay all (gmailStatus s),
                                isLoading := False\<rparr>,
             fetches := Suc (fetches r)\<rparr>)
      | None \<Rightarrow>
          (Thrown,
           r\<lparr>hasShownError := True, alerts := [alert_text (Some m)],
             store := (store r)\<lparr>isLoading := False\<rparr>,
             fetches := Suc (fetches r)\<rparr>))"
  proof (cases "fetch (fetches r)")
    case None
    with line have "process_lines ?st fetch (?err # rest) r =
        (Thrown, r\<lparr>hasShownError := True, alerts := alerts r @ [alert_text (Some m)],
                   fetches := Suc (fetches r)\<rparr>)"
      by simp
    with chunks have "process_chunks ?st fetch (cs @ (pre @ ?err # rest) # later) ?r0 =
        (Thrown, r\<lparr>hasShownError := True, alerts := alerts r @ [alert_text (Some m)],
                   fetches := Suc (fetches r)\<rparr>)"
      by simp
    then show ?thesis
      using None quiet by (simp add: ingestEmails_def)
  next
    case (Some all)
    with line have "process_lines ?st fetch (?err # rest) r =
        (Returned,
           r\<lparr>hasShownError := True, alerts := alerts r @ [alert_text (Some m)],
             store := (store r)\<lparr>allEmails := all, emails := filterEmailsForDisplay all ?st\<rparr>,
             fetches := Suc (fetches r)\<rparr>)"
      by simp
    with chunks have "process_chunks ?st fetch (cs @ (pre @ ?err # rest) # later) ?r0 =
        (Returned,
           r\<lparr>hasShownError := True, alerts := alerts r @ [alert_text (Some m)],
             store := (store r)\<lparr>allEmails := all, emails := filterEmailsForDisplay all ?st\<rparr>,
             fetches := Suc (fetches r)\<rparr>)"
      by simp
    then show ?thesis
      using Some quiet by (simp add: ingestEmails_def)
  qed
  have ignored: "\<not> is_groq_error message \<longrightarrow>
        process_lines status fetch (Data (Error_event message) # rest) r' =
          process_lines status fetch rest r'"
    by (simp add: other_error_line)
  from stops ignored show ?thesis by (rule conjI)
qed

theorem groq_error_stops_witness:
  "fst (ingestEmails (Body groq_stream) (\<lambda>n. Some [mock_email]) synced_state) = Returned \<and>
   alerts (snd (ingestEmails (Body groq_stream) (\<lambda>n. Some [mock_email]) synced_state))
     = [alert_text (Some ''Error calling Groq: rate limit'')] \<and>
   allEmails (store (snd (ingestEmails (Body groq_stream) (\<lambda>n. Some [mock_email]) synced_state)))
     = [mock_email]"
proof -
  let ?fetch = "\<lambda>n::nat. Some [mock_email]"
  let ?r = "\<lparr>store = on_category None work_event (synced_state\<lparr>isLoading := True\<rparr>),
             alerts = [], hasShownError = False, fetches = 0\<rparr>"
  have groq: "includes_str ''Error calling Groq: rate limit'' ''Error calling Groq''"
    by simp
  have status: "gmailStatus synced_state = None"
    by (simp add: synced_state_def mk_state_def)
  have before: "process_chunks (gmailStatus synced_state) ?fetch
      ([[Data (Category_event work_event)]] @ [[Not_data]])
      \<lparr>store = synced_state\<lparr>isLoading := True\<rparr>, alerts = [], hasShownError = False, fetches = 0\<rparr>
        = (Continue, ?r)"
    by (simp add: status)
  have stream: "groq_stream =
      [[Data (Category_event work_event)]] @
      ([Not_data] @ Data (Error_event (Some ''Error calling Groq: rate limit'')) #
         [Data (Action_items_event (mock_email\<lparr>action_items := Some three_items\<rparr>))]) #
      [[Data Complete_event]]"
    by (simp add: groq_stream_def)
  show ?thesis
    unfolding stream groq_error_stops [OF groq before, THEN conjunct1] by simp
qed

text \<open>
  An error event with another message does not end the run: no alert is shown and
  the category event after it is handled.
\<close>

theorem other_error_continues_counterexample:
  "alerts (snd (ingestEmails (Body ollama_stream) (\<lambda>n. None) synced_state)) = [] \<and>
   allEmails (store (snd (ingestEmails (Body ollama_stream) (\<lambda>n. None) synced_state)))
     = [mock_email\<lparr>category := Some ''Work''\<rparr>, gmail_email]"
  by (simp add: ingestEmails_def ollama_stream_def is_groq_error_def on_category_def Let_def
      set_category_def synced_state_def mk_state_def work_event_def mock_email_def
      gmail_email_def mk_email_def)

section \<open>Properties of the chats\<close>

lemma chatKey_truthy:
  "chatKey sel thread = Some key \<Longrightarrow> truthy_id sel"
  by (auto simp: chatKey_def truthy_id_def split: option.splits if_splits)

lemma handleSend_normal: "fst (handleSend api s c) = None"
  by (auto simp: handleSend_def Let_def finally_block_def catch_block_def send_try_def
      split: option.splits sum.splits)

lemma handleSend_Chat_normal: "fst (handleSend_Chat api now1 now2 g) = None"
  by (auto simp: handleSend_Chat_def Let_def finally_block_def catch_block_def chat_try_def
      split: option.splits sum.splits)

text \<open>
  C7: when the chat call is made and rejects, the send of the agent chat ends
  normally, with the user's message and the fallback message of the agent appended
  under the current key, the input cleared and the loading flag reset; so does the
  send of the general chat, with its own fallback message. No send of either ends
  with a pending failure.
\<close>

theorem chat_failure_fallback:
  "(chatKey (selectedEmailId s) (selectedThreadEmails s) = Some key \<and> trim (input c) \<noteq> [] \<and>
      api (chat_request_of s (input c)) = Inl e \<longrightarrow>
      handleSend api s c =
        (None,
         c\<lparr>input := [], isLoading_c := False,
           history := (history c)(key \<mapsto>
             (case history c key of None \<Rightarrow> [greeting (selectedThreadEmails s)] | Some ms \<Rightarrow> ms) @
             [\<lparr>role = User, content = input c\<rparr>,
              \<lparr>role = Agent, content = ''Sorry, I encountered an error.''\<rparr>])\<rparr>)) \<and>
   (trim (input_g g) \<noteq> [] \<and> \<not> isLoading_g g \<and>
      api \<lparr>message_r = input_g g, email_id = None, thread_email_ids = None\<rparr> = Inl e \<longrightarrow>
      handleSend_Chat api now1 now2 g =
        (None,
         g\<lparr>input_g := [], isLoading_g := False,
           messages := messages g @
             [\<lparr>role_m = User, content_m = input_g g, timestamp_m = now1\<rparr>,
              \<lparr>role_m = Assistant,
                content_m = ''Sorry, I encountered an error. Please try again.'',
                timestamp_m = now2\<rparr>]\<rparr>)) \<and>
   fst (handleSend api s c) = None \<and>
   fst (handleSend_Chat api now1 now2 g) = None"
proof (intro conjI impI)
  assume h: "chatKey (selectedEmailId s) (selectedThreadEmails s) = Some key \<and> trim (input c) \<noteq> [] \<and>
      api (chat_request_of s (input c)) = Inl e"
  then have "truthy_id (selectedEmailId s)" by (auto dest: chatKey_truthy)
  with h show "handleSend api s c =
        (None,
         c\<lparr>input := [], isLoading_c := False,
           history := (history c)(key \<mapsto>
             (case history c key of None \<Rightarrow> [greeting (selectedThreadEmails s)] | Some ms \<Rightarrow> ms) @
             [\<lparr>role = User, content = input c\<rparr>,
              \<lparr>role = Agent, content = ''Sorry, I encountered an error.''\<rparr>])\<rparr>)"
    by (simp add: handleSend_def Let_def finally_block_def catch_block_def send_try_def
        append_turn_def)
next
  assume "trim (input_g g) \<noteq> [] \<and> \<not> isLoading_g g \<and>
      api \<lparr>message_r = input_g g, email_id = None, thread_email_ids = None\<rparr> = Inl e"
  then show "handleSend_Chat api now1 now2 g =
        (None,
         g\<lparr>input_g := [], isLoading_g := False,
           messages := messages g @
             [\<lparr>role_m = User, content_m = input_g g, timestamp_m = now1\<rparr>,
              \<lparr>role_m = Assistant,
                content_m = ''Sorry, I encountered an error. Please try again.'',
                timestamp_m = now2\<rparr>]\<rparr>)"
    by (simp add: handleSend_Chat_def Let_def finally_block_def catch_block_def chat_try_def)
qed (rule handleSend_normal handleSend_Chat_normal)+

lemma trim_examples:
  "trim ''What is this?'' = ''What is this?''"
  "trim ''Any news?'' = ''Any news?''"
  by code_simp+

theorem chat_failure_fallback_witness:
  "handleSend failing_api selected_state asking =
     (None,
      asking\<lparr>input := [], isLoading_c := False,
        history := (history asking)(''email:m1'' \<mapsto>
          [greeting [mock_email],
           \<lparr>role = User, content = ''What is this?''\<rparr>,
           \<lparr>role = Agent, content = ''Sorry, I encountered an error.''\<rparr>])\<rparr>) \<and>
   handleSend_Chat failing_api 1 2 asking_general =
     (None,
      asking_general\<lparr>input_g := [], isLoading_g := False,
        messages :=
          [\<lparr>role_m = User, content_m = ''Any news?'', timestamp_m = 1\<rparr>,
           \<lparr>role_m = Assistant,
             content_m = ''Sorry, I encountered an error. Please try again.'',
             timestamp_m = 2\<rparr>]\<rparr>)"
proof -
  have a: "chatKey (selectedEmailId selected_state) (selectedThreadEmails selected_state)
        = Some ''email:m1'' \<and> trim (input asking) \<noteq> [] \<and>
      failing_api (chat_request_of selected_state (input asking)) = Inl Rejected"
    by (simp add: chatKey_def selected_state_def asking_def trim_examples failing_api_def)
  have g: "trim (input_g asking_general) \<noteq> [] \<and> \<not> isLoading_g asking_general \<and>
      failing_api \<lparr>message_r = input_g asking_general, email_id = None, thread_email_ids = None\<rparr>
        = Inl Rejected"
    by (simp add: asking_general_def trim_examples failing_api_def)
  note inst = chat_failure_fallback [where s = selected_state and key = "''email:m1''"
      and c = asking and api = failing_api and e = Rejected and g = asking_general
      and ?now1.0 = 1 and ?now2.0 = 2]
  from inst a have 1: "handleSend failing_api selected_state asking =
        (None,
         asking\<lparr>input := [], isLoading_c := False,
           history := (history asking)(''email:m1'' \<mapsto>
             (case history asking ''email:m1'' of
                None \<Rightarrow> [greeting (selectedThreadEmails selected_state)] | Some ms \<Rightarrow> ms) @
             [\<lparr>role = User, content = input asking\<rparr>,
              \<lparr>role = Agent, content = ''Sorry, I encountered an error.''\<rparr>])\<rparr>)"
    by blast
  from inst g have 2: "handleSend_Chat failing_api 1 2 asking_general =
        (None,
         asking_general\<lparr>input_g := [], isLoading_g := False,
           messages := messages asking_general @
             [\<lparr>role_m = User, content_m = input_g asking_general, timestamp_m = 1\<rparr>,
              \<lparr>role_m = Assistant,
                content_m = ''Sorry, I encountered an error. Please try again.'',
                timestamp_m = 2\<rparr>]\<rparr>)"
    by blast
  show ?thesis
    unfolding 1 2 by (simp add: asking_def asking_general_def selected_state_def)
qed

lemma selected_key: "chatKey (selectedEmailId selected_state) (selectedThreadEmails selected_state) = Some ''email:m1''"
  by (simp add: chatKey_def selected_state_def)

lemma append_turn_other: "A \<noteq> B \<Longrightarrow> history (append_turn A m c) B = history c B"
  by (simp add: append_turn_def)

lemma handleSend_history_other:
  assumes "chatKey (selectedEmailId s) (selectedThreadEmails s) \<noteq> Some B"
  shows "history (snd (handleSend api s c)) B = history c B"
proof (cases "chatKey (selectedEmailId s) (selectedThreadEmails s)")
  case None
  then show ?thesis by (simp add: handleSend_def)
next
  case (Some A)
  with assms have "A \<noteq> B" by simp
  then show ?thesis
    using Some
    by (auto simp: handleSend_def Let_def finally_block_def catch_block_def send_try_def
        append_turn_def split: sum.splits)
qed

text \<open>
  C8: appending a turn under a key leaves the turns stored under every other key
  as they were; a whole send under the current key does, too, and so the messages
  read under another key are the same before and after it.
\<close>

theorem session_isolation:
  "(A \<noteq> B \<longrightarrow> history (append_turn A m c) B = history c B) \<and>
   (chatKey (selectedEmailId s) (selectedThreadEmails s) \<noteq> Some B \<longrightarrow>
      history (snd (handleSend api s c)) B = history c B \<and>
      (\<forall>s'. chatKey (selectedEmailId s') (selectedThreadEmails s') = Some B \<longrightarrow>
         currentMessages s' (snd (handleSend api s c)) = currentMessages s' c))"
proof (intro conjI impI allI)
  assume "A \<noteq> B"
  then show "history (append_turn A m c) B = history c B" by (rule append_turn_other)
next
  assume "chatKey (selectedEmailId s) (selectedThreadEmails s) \<noteq> Some B"
  then show "history (snd (handleSend api s c)) B = history c B"
    by (rule handleSend_history_other)
next
  fix s' :: app_state
  assume other: "chatKey (selectedEmailId s) (selectedThreadEmails s) \<noteq> Some B"
    and key: "chatKey (selectedEmailId s') (selectedThreadEmails s') = Some B"
  from handleSend_history_other [OF other]
  show "currentMessages s' (snd (handleSend api s c)) = currentMessages s' c"
    by (simp add: currentMessages_def key)
qed

theorem session_isolation_witness:
  "history (snd (handleSend answering_api selected_state asking)) ''email:g1''
     = Some [\<lparr>role = User, content = ''Who wrote this?''\<rparr>]"
proof -
  have other: "chatKey (selectedEmailId selected_state) (selectedThreadEmails selected_state)
      \<noteq> Some ''email:g1''"
    by (simp add: selected_key)
  from session_isolation [where B = "''email:g1''" and s = selected_state
      and api = answering_api and c = asking,
      THEN conjunct2, THEN mp, OF other, THEN conjunct1]
  show ?thesis by (simp add: asking_def)
qed

section \<open>Properties of the inbox view\<close>

lemma add_email_new:
  "normalizeSubject lower (subject e) \<notin> id_t ` set ts \<Longrightarrow>
   add_email lower parseDate ts e =
     ts @ [\<lparr>id_t = normalizeSubject lower (subject e), subject_t = subject e, emails_t = [e],
            latestTimestamp = timestamp e, hasUnread = (\<not> read e)\<rparr>]"
  unfolding add_email_def Let_def by (rule if_P)

lemma add_email_old:
  "normalizeSubject lower (subject e) \<in> id_t ` set ts \<Longrightarrow>
   add_email lower parseDate ts e =
     map (\<lambda>t. if id_t t = normalizeSubject lower (subject e)
              then t\<lparr>emails_t := emails_t t @ [e],
                     latestTimestamp :=
                       (if later_than parseDate (timestamp e) (latestTimestamp t)
                        then timestamp e else latestTimestamp t),
                     hasUnread := (hasUnread t \<or> \<not> read e)\<rparr>
              else t) ts"
  unfolding add_email_def Let_def by (rule if_not_P) simp

lemma add_email_ids:
  "id_t ` set (add_email lower parseDate ts e) =
     insert (normalizeSubject lower (subject e)) (id_t ` set ts)"
proof (cases "normalizeSubject lower (subject e) \<in> id_t ` set ts")
  case True
  have "id_t ` set (add_email lower parseDate ts e) = id_t ` set ts"
    unfolding add_email_old [OF True] set_map image_image
    by (rule image_cong) simp_all
  with True show ?thesis by blast
next
  case False
  show ?thesis unfolding add_email_new [OF False] by simp
qed

lemma add_email_emails:
  assumes "t' \<in> set (add_email lower parseDate ts e)"
  shows "(\<exists>t \<in> set ts. id_t t' = id_t t \<and>
            emails_t t' = (if id_t t = normalizeSubject lower (subject e)
                           then emails_t t @ [e] else emails_t t)) \<or>
         (normalizeSubject lower (subject e) \<notin> id_t ` set ts \<and>
          id_t t' = normalizeSubject lower (subject e) \<and> emails_t t' = [e])"
proof (cases "normalizeSubject lower (subject e) \<in> id_t ` set ts")
  case True
  from assms obtain t where t: "t \<in> set ts" and
    t': "t' = (if id_t t = normalizeSubject lower (subject e)
           then t\<lparr>emails_t := emails_t t @ [e],
                  latestTimestamp :=
                    (if later_than parseDate (timestamp e) (latestTimestamp t)
                     then timestamp e else latestTimestamp t),
                  hasUnread := (hasUnread t \<or> \<not> read e)\<rparr>
           else t)"
    unfolding add_email_old [OF True] set_map by (rule imageE)
  have "id_t t' = id_t t" by (simp add: t')
  moreover have "emails_t t' = (if id_t t = normalizeSubject lower (subject e)
                           then emails_t t @ [e] else emails_t t)"
    by (simp add: t')
  ultimately show ?thesis using t by blast
next
  case False
  from assms have "t' \<in> set ts \<or>
      t' = \<lparr>id_t = normalizeSubject lower (subject e), subject_t = subject e, emails_t = [e],
            latestTimestamp = timestamp e, hasUnread = (\<not> read e)\<rparr>"
    unfolding add_email_new [OF False] set_append
    by (simp only: set_simps Un_iff insert_iff empty_iff) blast
  then show ?thesis
  proof
    assume in_ts: "t' \<in> set ts"
    with False have "id_t t' \<noteq> normalizeSubject lower (subject e)" by (auto simp: image_iff)
    with in_ts show ?thesis by auto
  next
    assume "t' = \<lparr>id_t = normalizeSubject lower (subject e), subject_t = subject e, emails_t = [e],
            latestTimestamp = timestamp e, hasUnread = (\<not> read e)\<rparr>"
    then have "id_t t' = normalizeSubject lower (subject e) \<and> emails_t t' = [e]" by simp
    with False show ?thesis by blast
  qed
qed

lemma group_threads_snoc:
  "group_threads lower parseDate (es @ [e]) =
     add_email lower parseDate (group_threads lower parseDate es) e"
  by (simp add: group_threads_def)

lemma group_threads_ids:
  "id_t ` set (group_threads lower parseDate es) =
     (\<lambda>a. normalizeSubject lower (subject a)) ` set es"
proof (induction es rule: rev_induct)
  case Nil
  show ?case by (simp add: group_threads_def)
next
  case (snoc e es)
  then show ?case
    unfolding group_threads_snoc add_email_ids by simp
qed

lemma group_threads_emails:
  "t \<in> set (group_threads lower parseDate es) \<Longrightarrow>
   set (emails_t t) = {a \<in> set es. normalizeSubject lower (subject a) = id_t t}"
proof (induction es arbitrary: t rule: rev_induct)
  case Nil
  then show ?case by (simp add: group_threads_def)
next
  case (snoc e es)
  let ?k = "normalizeSubject lower (subject e)"
  let ?ts = "group_threads lower parseDate es"
  from snoc.prems have "t \<in> set (add_email lower parseDate ?ts e)"
    by (simp only: group_threads_snoc)
  from add_email_emails [OF this]
  show ?case
  proof
    assume "\<exists>t0 \<in> set ?ts. id_t t = id_t t0 \<and>
        emails_t t = (if id_t t0 = ?k then emails_t t0 @ [e] else emails_t t0)"
    then obtain t0 where t0: "t0 \<in> set ?ts" and i: "id_t t = id_t t0"
      and m: "emails_t t = (if id_t t0 = ?k then emails_t t0 @ [e] else emails_t t0)"
      by blast
    from snoc.IH [OF t0]
    have old: "set (emails_t t0) = {a \<in> set es. normalizeSubject lower (subject a) = id_t t0}" .
    show ?thesis
    proof (cases "id_t t0 = ?k")
      case True
      with m have "set (emails_t t) = insert e (set (emails_t t0))" by simp
      with old True i show ?thesis by auto
    next
      case False
      with m have "set (emails_t t) = set (emails_t t0)" by simp
      with old False i show ?thesis by auto
    qed
  next
    assume new: "?k \<notin> id_t ` set ?ts \<and> id_t t = ?k \<and> emails_t t = [e]"
    then have "?k \<notin> (\<lambda>a. normalizeSubject lower (subject a)) ` set es"
      using group_threads_ids [of lower parseDate es] by simp
    then have "{a \<in> set es. normalizeSubject lower (subject a) = ?k} = {}"
      by (auto simp: image_iff)
    with new show ?thesis by auto
  qed
qed

lemma set_sort_newest:
  assumes "\<And>keys. set (engine keys) = {0..<length keys}"
  shows "set (sort_newest engine time xs) = set xs"
proof (cases "list_all (\<lambda>x. time x \<noteq> None) xs")
  case True
  then show ?thesis by (simp add: sort_newest_def)
next
  case False
  have "set (map (\<lambda>i. xs ! i) (engine (map time xs))) = (\<lambda>i. xs ! i) ` {0..<length xs}"
    by (simp add: assms)
  also have "\<dots> = set xs"
    using nth_image [of "length xs" xs] by simp
  finally show ?thesis using False by (simp add: sort_newest_def)
qed

lemma threads_grouped:
  assumes engine: "\<And>keys. set (engine keys) = {0..<length keys}"
    and t: "t \<in> set (threads lower parseDate engine es)"
  shows "set (emails_t t) = {a \<in> set es. normalizeSubject lower (subject a) = id_t t}"
proof -
  from t have "t \<in> sort_thread parseDate engine ` set (group_threads lower parseDate es)"
    by (simp add: threads_def set_sort_newest [OF engine])
  then obtain t0 where t0: "t0 \<in> set (group_threads lower parseDate es)"
    and t': "t = sort_thread parseDate engine t0"
    by (rule imageE)
  from group_threads_emails [OF t0]
  have "set (emails_t t0) = {a \<in> set es. normalizeSubject lower (subject a) = id_t t0}" .
  with t' show ?thesis by (simp add: sort_thread_def set_sort_newest [OF engine])
qed

lemma handleEmailClick_selection:
  "selectedThreadEmails (fst (handleEmailClick e t view)) = [e] \<or>
   selectedThreadEmails (fst (handleEmailClick e t view)) = emails_t t"
  by (simp add: handleEmailClick_def Let_def setSelectedThreadEmails_def)

lemma displayEmails_subset: "set (displayEmails t expanded) \<subseteq> set (emails_t t)"
  by (auto simp: displayEmails_def dest: in_set_takeD)

lemma click_selection_one_subject:
  assumes engine: "\<And>keys. set (engine keys) = {0..<length keys}"
    and t: "t \<in> set (threads lower parseDate engine es)"
    and e: "e \<in> set (emails_t t)"
    and a: "a \<in> set (selectedThreadEmails (fst (handleEmailClick e t view)))"
  shows "normalizeSubject lower (subject a) = id_t t"
proof -
  from threads_grouped [OF engine t]
  have g: "set (emails_t t) = {x \<in> set es. normalizeSubject lower (subject x) = id_t t}" .
  have "a \<in> set (emails_t t)"
  proof (rule disjE [OF handleEmailClick_selection [of e t view]])
    assume "selectedThreadEmails (fst (handleEmailClick e t view)) = [e]"
    with a e show ?thesis by simp
  next
    assume "selectedThreadEmails (fst (handleEmailClick e t view)) = emails_t t"
    with a show ?thesis by simp
  qed
  with g show ?thesis by simp
qed

lemma step_one_subject:
  assumes engine: "\<And>keys. set (engine keys) = {0..<length keys}"
    and inv: "\<exists>key. \<forall>a \<in> set (selectedThreadEmails (fst view)).
               normalizeSubject lower (subject a) = key"
  shows "\<exists>key. \<forall>a \<in> set (selectedThreadEmails (fst (step lower parseDate engine view ev))).
               normalizeSubject lower (subject a) = key"
proof (cases ev)
  case (Click fl subFilter k j)
  let ?ts = "threads lower parseDate engine (filteredEmails fl subFilter (emails (fst view)))"
  let ?rows = "displayEmails (?ts ! k) (snd view)"
  show ?thesis
  proof (cases "k < length ?ts \<and> j < length ?rows")
    case True
    then have t: "?ts ! k \<in> set ?ts" by simp
    from True have "?rows ! j \<in> set ?rows" by simp
    with displayEmails_subset have e: "?rows ! j \<in> set (emails_t (?ts ! k))" by blast
    have st: "step lower parseDate engine view ev = handleEmailClick (?rows ! j) (?ts ! k) view"
      using True Click by (simp add: Let_def)
    have "\<forall>a \<in> set (selectedThreadEmails (fst (handleEmailClick (?rows ! j) (?ts ! k) view))).
        normalizeSubject lower (subject a) = id_t (?ts ! k)"
      using click_selection_one_subject [OF engine t e] by blast
    then show ?thesis unfolding st by (rule exI)
  next
    case False
    then have "step lower parseDate engine view ev = view"
      using Click by (auto simp: Let_def)
    with inv show ?thesis by simp
  qed
next
  case (Expanded x)
  with inv show ?thesis by simp
next
  case (Store_action f)
  with inv show ?thesis by simp
qed

lemma run_snoc:
  "run lower parseDate engine (events @ [ev]) =
     step lower parseDate engine (run lower parseDate engine events) ev"
  by (simp add: run_def)

lemma run_one_subject:
  assumes engine: "\<And>keys. set (engine keys) = {0..<length keys}"
  shows "\<exists>key. \<forall>a \<in> set (selectedThreadEmails (fst (run lower parseDate engine events))).
               normalizeSubject lower (subject a) = key"
proof (induction events rule: rev_induct)
  case Nil
  show ?case by (simp add: run_def initial_state_def)
next
  case (snoc ev events)
  from step_one_subject [OF engine snoc.IH]
  show ?case by (simp only: run_snoc)
qed

text \<open>The grouping does not read the thread ids: it is the same under any change of them.\<close>

lemma insort_key_map:
  "insort_key f (g x) (map g xs) = map g (insort_key (\<lambda>y. f (g y)) x xs)"
  by (induction xs) simp_all

lemma sort_key_map:
  "sort_key f (map g xs) = map g (sort_key (\<lambda>y. f (g y)) xs)"
  by (induction xs) (simp_all add: insort_key_map)

lemma sort_newest_map:
  assumes "\<And>keys. set (engine keys) = {0..<length keys}"
  shows "sort_newest engine time (map g xs) = map g (sort_newest engine (\<lambda>x. time (g x)) xs)"
proof -
  have l: "list_all (\<lambda>x. time x \<noteq> None) (map g xs) = list_all (\<lambda>x. time (g x) \<noteq> None) xs"
    by (simp add: list_all_iff)
  have m: "map time (map g xs) = map (\<lambda>x. time (g x)) xs"
    by simp
  show ?thesis
  proof (cases "list_all (\<lambda>x. time (g x) \<noteq> None) xs")
    case True
    then have "sort_newest engine time (map g xs) =
        sort_key (\<lambda>x. case time x of None \<Rightarrow> 0 | Some v \<Rightarrow> - v) (map g xs)"
      by (simp only: sort_newest_def l if_True)
    also have "\<dots> = map g (sort_key (\<lambda>x. case time (g x) of None \<Rightarrow> 0 | Some v \<Rightarrow> - v) xs)"
      by (rule sort_key_map)
    also have "\<dots> = map g (sort_newest engine (\<lambda>x. time (g x)) xs)"
      using True by (simp only: sort_newest_def if_True)
    finally show ?thesis .
  next
    case False
    have "\<forall>i \<in> set (engine (map (\<lambda>x. time (g x)) xs)). i < length xs"
      by (simp add: assms)
    then have eq: "map (\<lambda>i. map g xs ! i) (engine (map (\<lambda>x. time (g x)) xs)) =
        map g (map (\<lambda>i. xs ! i) (engine (map (\<lambda>x. time (g x)) xs)))"
      by simp
    from False have "sort_newest engine time (map g xs) =
        map (\<lambda>i. map g xs ! i) (engine (map (\<lambda>x. time (g x)) xs))"
      by (simp only: sort_newest_def l m if_False)
    also note eq
    also have "map g (map (\<lambda>i. xs ! i) (engine (map (\<lambda>x. time (g x)) xs))) =
        map g (sort_newest engine (\<lambda>x. time (g x)) xs)"
      using False by (simp only: sort_newest_def if_False)
    finally show ?thesis .
  qed
qed

lemma add_email_rethread:
  "add_email lower parseDate
     (map (\<lambda>t. t\<lparr>emails_t := map (\<lambda>a. a\<lparr>thread_id := f a\<rparr>) (emails_t t)\<rparr>) ts)
     (e\<lparr>thread_id := f e\<rparr>) =
   map (\<lambda>t. t\<lparr>emails_t := map (\<lambda>a. a\<lparr>thread_id := f a\<rparr>) (emails_t t)\<rparr>)
     (add_email lower parseDate ts e)"
proof (cases "normalizeSubject lower (subject e) \<in> id_t ` set ts")
  case True
  then have "normalizeSubject lower (subject (e\<lparr>thread_id := f e\<rparr>))
      \<in> id_t ` set (map (\<lambda>t. t\<lparr>emails_t := map (\<lambda>a. a\<lparr>thread_id := f a\<rparr>) (emails_t t)\<rparr>) ts)"
    by (simp add: image_image)
  from add_email_old [OF this] add_email_old [OF True]
  show ?thesis by (simp add: comp_def)
next
  case False
  then have "normalizeSubject lower (subject (e\<lparr>thread_id := f e\<rparr>))
      \<notin> id_t ` set (map (\<lambda>t. t\<lparr>emails_t := map (\<lambda>a. a\<lparr>thread_id := f a\<rparr>) (emails_t t)\<rparr>) ts)"
    by (simp add: image_image)
  from add_email_new [OF this] add_email_new [OF False]
  show ?thesis by simp
qed

lemma group_threads_rethread:
  "group_threads lower parseDate (map (\<lambda>a. a\<lparr>thread_id := f a\<rparr>) es) =
   map (\<lambda>t. t\<lparr>emails_t := map (\<lambda>a. a\<lparr>thread_id := f a\<rparr>) (emails_t t)\<rparr>)
     (group_threads lower parseDate es)"
proof (induction es rule: rev_induct)
  case Nil
  show ?case by (simp add: group_threads_def)
next
  case (snoc e es)
  then show ?case
    by (simp add: group_threads_snoc add_email_rethread)
qed

lemma sort_thread_rethread:
  assumes "\<And>keys. set (engine keys) = {0..<length keys}"
  shows "sort_thread parseDate engine (t\<lparr>emails_t := map (\<lambda>a. a\<lparr>thread_id := f a\<rparr>) (emails_t t)\<rparr>) =
     (sort_thread parseDate engine t)\<lparr>emails_t :=
        map (\<lambda>a. a\<lparr>thread_id := f a\<rparr>) (emails_t (sort_thread parseDate engine t))\<rparr>"
  by (simp add: sort_thread_def sort_newest_map [OF assms])

lemma threads_rethread:
  assumes "\<And>keys. set (engine keys) = {0..<length keys}"
  shows "threads lower parseDate engine (map (\<lambda>a. a\<lparr>thread_id := f a\<rparr>) es) =
   map (\<lambda>t. t\<lparr>emails_t := map (\<lambda>a. a\<lparr>thread_id := f a\<rparr>) (emails_t t)\<rparr>)
     (threads lower parseDate engine es)"
proof -
  let ?G = "\<lambda>t. t\<lparr>emails_t := map (\<lambda>a. a\<lparr>thread_id := f a\<rparr>) (emails_t t)\<rparr>"
  let ?K = "\<lambda>t. parseDate (latestTimestamp t)"
  let ?sorted = "map (sort_thread parseDate engine) (group_threads lower parseDate es)"
  have "map (sort_thread parseDate engine) (map ?G (group_threads lower parseDate es)) =
      map ?G ?sorted"
    by (simp add: sort_thread_rethread [OF assms] comp_def)
  then have "threads lower parseDate engine (map (\<lambda>a. a\<lparr>thread_id := f a\<rparr>) es) =
      sort_newest engine ?K (map ?G ?sorted)"
    by (simp only: threads_def group_threads_rethread)
  also have "\<dots> = map ?G (sort_newest engine (\<lambda>t. ?K (?G t)) ?sorted)"
    by (rule sort_newest_map [OF assms])
  also have "(\<lambda>t. ?K (?G t)) = ?K"
    by (rule ext) simp
  finally show ?thesis by (simp only: threads_def)
qed

text \<open>
  C1, as amended: the emails supplied together as thread context are grouped by
  subject text, not by thread id. After any sequence of clicks, changes of the
  expanded threads and other actions of the store, when the chat request carries
  thread ids they are the ids of the selected emails, more than one, and these
  emails have one normalized subject. They are what the last click on a row
  selected: a click selects the clicked email alone or the whole thread, and the
  whole thread is exactly the emails of the filtered list of that moment with the
  normalized subject of the clicked email. The threads of the view are the same,
  email for email, when the thread ids of the emails are replaced by any others.
  The engine's sort is assumed to return positions of its input, all of them.
\<close>

theorem thread_context_by_subject:
  assumes engine: "\<And>keys. set (engine keys) = {0..<length keys}"
  shows "(thread_email_ids (chat_request_of (fst (run lower parseDate engine events)) userMsg) = Some ids
            \<longrightarrow>
          ids = map id' (selectedThreadEmails (fst (run lower parseDate engine events))) \<and>
          1 < length ids \<and>
          (\<forall>a \<in> set (selectedThreadEmails (fst (run lower parseDate engine events))).
           \<forall>b \<in> set (selectedThreadEmails (fst (run lower parseDate engine events))).
             normalizeSubject lower (subject a) = normalizeSubject lower (subject b))) \<and>
         (t \<in> set (threads lower parseDate engine es) \<and> e \<in> set (emails_t t) \<longrightarrow>
            selectedThreadEmails (fst (handleEmailClick e t view)) = [e] \<or>
            set (selectedThreadEmails (fst (handleEmailClick e t view))) =
              {a \<in> set es. normalizeSubject lower (subject a) = normalizeSubject lower (subject e)}) \<and>
         threads lower parseDate engine (map (\<lambda>a. a\<lparr>thread_id := f a\<rparr>) es) =
           map (\<lambda>t. t\<lparr>emails_t := map (\<lambda>a. a\<lparr>thread_id := f a\<rparr>) (emails_t t)\<rparr>)
             (threads lower parseDate engine es)"
proof -
  let ?s = "fst (run lower parseDate engine events)"
  have 1: "thread_email_ids (chat_request_of ?s userMsg) = Some ids \<longrightarrow>
          ids = map id' (selectedThreadEmails ?s) \<and> 1 < length ids \<and>
          (\<forall>a \<in> set (selectedThreadEmails ?s). \<forall>b \<in> set (selectedThreadEmails ?s).
             normalizeSubject lower (subject a) = normalizeSubject lower (subject b))"
  proof
    assume req: "thread_email_ids (chat_request_of ?s userMsg) = Some ids"
    then have ids: "ids = map id' (selectedThreadEmails ?s)"
      and several: "1 < length (selectedThreadEmails ?s)"
      by (cases "1 < length (selectedThreadEmails ?s)"; simp add: chat_request_of_def)+
    from run_one_subject [OF engine, of lower parseDate events]
    obtain key where "\<forall>a \<in> set (selectedThreadEmails ?s). normalizeSubject lower (subject a) = key"
      by (rule exE)
    then have key: "normalizeSubject lower (subject a) = key"
      if "a \<in> set (selectedThreadEmails ?s)" for a
      using that by (rule bspec)
    have "\<forall>a \<in> set (selectedThreadEmails ?s). \<forall>b \<in> set (selectedThreadEmails ?s).
        normalizeSubject lower (subject a) = normalizeSubject lower (subject b)"
    proof (intro ballI)
      fix a b
      assume a: "a \<in> set (selectedThreadEmails ?s)" and b: "b \<in> set (selectedThreadEmails ?s)"
      show "normalizeSubject lower (subject a) = normalizeSubject lower (subject b)"
        by (simp only: key [OF a] key [OF b])
    qed
    with ids several show "ids = map id' (selectedThreadEmails ?s) \<and> 1 < length ids \<and>
          (\<forall>a \<in> set (selectedThreadEmails ?s). \<forall>b \<in> set (selectedThreadEmails ?s).
             normalizeSubject lower (subject a) = normalizeSubject lower (subject b))"
      by (simp only: length_map simp_thms)
  qed
  have 2: "t \<in> set (threads lower parseDate engine es) \<and> e \<in> set (emails_t t) \<longrightarrow>
            selectedThreadEmails (fst (handleEmailClick e t view)) = [e] \<or>
            set (selectedThreadEmails (fst (handleEmailClick e t view))) =
              {a \<in> set es. normalizeSubject lower (subject a) = normalizeSubject lower (subject e)}"
  proof
    assume h: "t \<in> set (threads lower parseDate engine es) \<and> e \<in> set (emails_t t)"
    then have t: "t \<in> set (threads lower parseDate engine es)" and e: "e \<in> set (emails_t t)"
      by simp_all
    let ?sel = "selectedThreadEmails (fst (handleEmailClick e t view))"
    let ?group = "{a \<in> set es. normalizeSubject lower (subject a) = normalizeSubject lower (subject e)}"
    from threads_grouped [OF engine t]
    have g: "set (emails_t t) = {a \<in> set es. normalizeSubject lower (subject a) = id_t t}" .
    with e have k: "normalizeSubject lower (subject e) = id_t t" by simp
    from g k have whole: "set (emails_t t) = ?group" by simp
    show "?sel = [e] \<or> set ?sel = ?group"
    proof (rule disjE [OF handleEmailClick_selection [of e t view]])
      assume "?sel = [e]"
      then show ?thesis by (rule disjI1)
    next
      assume "?sel = emails_t t"
      then have "set ?sel = ?group" by (simp only: whole)
      then show ?thesis by (rule disjI2)
    qed
  qed
  have 3: "threads lower parseDate engine (map (\<lambda>a. a\<lparr>thread_id := f a\<rparr>) es) =
           map (\<lambda>t. t\<lparr>emails_t := map (\<lambda>a. a\<lparr>thread_id := f a\<rparr>) (emails_t t)\<rparr>)
             (threads lower parseDate engine es)"
    by (rule threads_rethread [OF engine])
  show ?thesis
    by (rule conjI [OF 1 conjI [OF 2 3]])
qed

lemma normalize_examples:
  "normalizeSubject toLowerCase ''Hello'' = ''hello''"
  "normalizeSubject toLowerCase ''RE: hello'' = ''hello''"
  by code_simp+

lemma filtered_inbox:
  "category a = None \<Longrightarrow> category b = None \<Longrightarrow> filteredEmails Inbox ''all'' [a, b] = [a, b]"
  by (simp add: filteredEmails_def category_has_def)

lemma keep_order_positions: "set (keep_order keys) = {0..<length keys}"
  by (simp add: keep_order_def)

lemma threads_two_hello:
  assumes "subject a = ''Hello''" "subject b = ''RE: hello''"
    "timestamp a = ''2024-01-01T10:00:00Z''" "timestamp b = ''2024-01-01T10:00:00Z''" "\<not> read b"
  shows "threads toLowerCase example_clock keep_order [a, b] = [hello_thread [a, b]]"
  using assms
  by (simp add: threads_def group_threads_def add_email_def Let_def normalize_examples
      sort_thread_def sort_newest_def later_than_def example_clock_def hello_thread_def)

lemma example_store_step: "step toLowerCase example_clock keep_order (initial_state, {}) (Store_action (\<lambda>s. inbox_state)) = (inbox_state, {})"
  by (simp add: initial_state_def inbox_state_def mk_state_def)

lemma example_threads_first: "threads toLowerCase example_clock keep_order
      (filteredEmails Inbox ''all'' (emails inbox_state)) = [hello_thread [mock_email, reply_email]]"
  by (simp add: inbox_state_def mk_state_def filtered_inbox threads_two_hello
        mock_email_def reply_email_def mk_email_def)

lemma example_click_first: "handleEmailClick mock_email (hello_thread [mock_email, reply_email]) (inbox_state, {})
      = (inbox_state\<lparr>selectedEmailId := Some ''m1'',
                      emails := [mock_email\<lparr>read := True\<rparr>, reply_email],
                      allEmails := [mock_email\<lparr>read := True\<rparr>, reply_email],
                      selectedThreadEmails := [mock_email]\<rparr>, {''hello''})"
  by (simp add: handleEmailClick_def Let_def setSelectedEmailId_def setSelectedThreadEmails_def
        mark_read_def hello_thread_def inbox_state_def mk_state_def
        mock_email_def reply_email_def mk_email_def)

lemma example_rows_first: "displayEmails (hello_thread [mock_email, reply_email]) {} = [mock_email]"
  by (simp add: displayEmails_def hello_thread_def)

lemma example_step_first: "step toLowerCase example_clock keep_order (inbox_state, {}) (Click Inbox ''all'' 0 0) =
      (inbox_state\<lparr>selectedEmailId := Some ''m1'',
                      emails := [mock_email\<lparr>read := True\<rparr>, reply_email],
                      allEmails := [mock_email\<lparr>read := True\<rparr>, reply_email],
                      selectedThreadEmails := [mock_email]\<rparr>, {''hello''})"
proof -
  have "step toLowerCase example_clock keep_order (inbox_state, {}) (Click Inbox ''all'' 0 0) =
      handleEmailClick mock_email (hello_thread [mock_email, reply_email]) (inbox_state, {})"
    unfolding step.simps fst_conv snd_conv example_threads_first Let_def
    by (simp only: example_rows_first length_Cons list.size nth_Cons_0 if_True zero_less_Suc)
  then show ?thesis by (simp only: example_click_first)
qed


lemma example_threads_second: "threads toLowerCase example_clock keep_order
      (filteredEmails Inbox ''all'' [mock_email\<lparr>read := True\<rparr>, reply_email])
        = [hello_thread [mock_email\<lparr>read := True\<rparr>, reply_email]]"
  by (simp add: filtered_inbox threads_two_hello mock_email_def reply_email_def mk_email_def)

lemma example_click_second: "handleEmailClick (mock_email\<lparr>read := True\<rparr>)
        (hello_thread [mock_email\<lparr>read := True\<rparr>, reply_email])
        (inbox_state\<lparr>selectedEmailId := Some ''m1'',
                      emails := [mock_email\<lparr>read := True\<rparr>, reply_email],
                      allEmails := [mock_email\<lparr>read := True\<rparr>, reply_email],
                      selectedThreadEmails := [mock_email]\<rparr>, {''hello''})
      = (inbox_state\<lparr>selectedEmailId := Some ''m1'',
                  emails := [mock_email\<lparr>read := True\<rparr>, reply_email],
                  allEmails := [mock_email\<lparr>read := True\<rparr>, reply_email],
                  selectedThreadEmails := [mock_email\<lparr>read := True\<rparr>, reply_email]\<rparr>, {})"
  by (simp add: handleEmailClick_def Let_def setSelectedEmailId_def setSelectedThreadEmails_def
        mark_read_def hello_thread_def inbox_state_def mk_state_def
        mock_email_def reply_email_def mk_email_def)

lemma example_rows_second:
  "displayEmails (hello_thread [mock_email\<lparr>read := True\<rparr>, reply_email]) {''hello''}
     = [mock_email\<lparr>read := True\<rparr>, reply_email]"
  by (simp add: displayEmails_def hello_thread_def)

lemma example_step_second: "step toLowerCase example_clock keep_order
      (inbox_state\<lparr>selectedEmailId := Some ''m1'',
                      emails := [mock_email\<lparr>read := True\<rparr>, reply_email],
                      allEmails := [mock_email\<lparr>read := True\<rparr>, reply_email],
                      selectedThreadEmails := [mock_email]\<rparr>, {''hello''})
      (Click Inbox ''all'' 0 0) =
      (inbox_state\<lparr>selectedEmailId := Some ''m1'',
                  emails := [mock_email\<lparr>read := True\<rparr>, reply_email],
                  allEmails := [mock_email\<lparr>read := True\<rparr>, reply_email],
                  selectedThreadEmails := [mock_email\<lparr>read := True\<rparr>, reply_email]\<rparr>, {})"
proof -
  have e: "emails (inbox_state\<lparr>selectedEmailId := Some ''m1'',
                      emails := [mock_email\<lparr>read := True\<rparr>, reply_email],
                      allEmails := [mock_email\<lparr>read := True\<rparr>, reply_email],
                      selectedThreadEmails := [mock_email]\<rparr>)
      = [mock_email\<lparr>read := True\<rparr>, reply_email]"
    by simp
  have "step toLowerCase example_clock keep_order
      (inbox_state\<lparr>selectedEmailId := Some ''m1'',
                      emails := [mock_email\<lparr>read := True\<rparr>, reply_email],
                      allEmails := [mock_email\<lparr>read := True\<rparr>, reply_email],
                      selectedThreadEmails := [mock_email]\<rparr>, {''hello''})
      (Click Inbox ''all'' 0 0) =
      handleEmailClick (mock_email\<lparr>read := True\<rparr>)
        (hello_thread [mock_email\<lparr>read := True\<rparr>, reply_email])
        (inbox_state\<lparr>selectedEmailId := Some ''m1'',
                      emails := [mock_email\<lparr>read := True\<rparr>, reply_email],
                      allEmails := [mock_email\<lparr>read := True\<rparr>, reply_email],
                      selectedThreadEmails := [mock_email]\<rparr>, {''hello''})"
    unfolding step.simps fst_conv snd_conv e example_threads_second Let_def
    by (simp only: example_rows_second length_Cons list.size nth_Cons_0 if_True zero_less_Suc)
  then show ?thesis by (simp only: example_click_second)
qed

lemma example_run:
  "run toLowerCase example_clock keep_order two_clicks =
     (inbox_state\<lparr>selectedEmailId := Some ''m1'',
                  emails := [mock_email\<lparr>read := True\<rparr>, reply_email],
                  allEmails := [mock_email\<lparr>read := True\<rparr>, reply_email],
                  selectedThreadEmails := [mock_email\<lparr>read := True\<rparr>, reply_email]\<rparr>, {})"
  by (simp only: run_def two_clicks_def foldl.simps example_store_step example_step_first example_step_second)

theorem thread_context_by_subject_witness:
  "thread_email_ids
     (chat_request_of (fst (run toLowerCase example_clock keep_order two_clicks)) ''Summarize'')
     = Some [''m1'', ''m2''] \<and>
   normalizeSubject toLowerCase (subject (mock_email\<lparr>read := True\<rparr>)) =
     normalizeSubject toLowerCase (subject reply_email)"
proof -
  let ?s = "fst (run toLowerCase example_clock keep_order two_clicks)"
  have sel: "selectedThreadEmails ?s = [mock_email\<lparr>read := True\<rparr>, reply_email]"
    by (simp add: example_run)
  have ids: "thread_email_ids (chat_request_of ?s ''Summarize'') = Some [''m1'', ''m2'']"
    by (simp add: chat_request_of_def sel mock_email_def reply_email_def mk_email_def)
  from thread_context_by_subject [OF keep_order_positions, THEN conjunct1, THEN mp, OF ids]
  have all: "\<forall>a \<in> set (selectedThreadEmails ?s). \<forall>b \<in> set (selectedThreadEmails ?s).
      normalizeSubject toLowerCase (subject a) = normalizeSubject toLowerCase (subject b)"
    by (rule conjunct2 [THEN conjunct2])
  have a: "mock_email\<lparr>read := True\<rparr> \<in> set (selectedThreadEmails ?s)"
    and b: "reply_email \<in> set (selectedThreadEmails ?s)"
    by (simp_all only: sel list.set insert_iff simp_thms)
  from all a have "\<forall>b \<in> set (selectedThreadEmails ?s).
      normalizeSubject toLowerCase (subject (mock_email\<lparr>read := True\<rparr>)) =
        normalizeSubject toLowerCase (subject b)"
    by (rule bspec)
  from this b have "normalizeSubject toLowerCase (subject (mock_email\<lparr>read := True\<rparr>)) =
      normalizeSubject toLowerCase (subject reply_email)"
    by (rule bspec)
  with ids show ?thesis by (rule conjI)
qed

text \<open>
  Two emails of different threads, \<open>Hello\<close> and \<open>RE: hello\<close>, form one thread of
  the view; a click on its row expands it, a second click collapses it, and the
  chat request then carries both ids as thread context.
\<close>

theorem thread_context_counterexample:
  "thread_email_ids
     (chat_request_of (fst (run toLowerCase example_clock keep_order two_clicks)) ''Summarize'')
     = Some [''m1'', ''m2''] \<and>
   map thread_id (selectedThreadEmails (fst (run toLowerCase example_clock keep_order two_clicks)))
     = [Some ''t1'', Some ''t2''] \<and>
   map subject (selectedThreadEmails (fst (run toLowerCase example_clock keep_order two_clicks)))
     = [''Hello'', ''RE: hello'']"
  by (simp add: example_run chat_request_of_def mock_email_def reply_email_def mk_email_def)

section \<open>Properties of the Gmail composer\<close>

text \<open>
  C10: when the To field parses to no recipient, the send of the composer sets the
  error message and returns without a call of the send API; every payload it does
  pass to the send API carries the parsed recipients of the To field, at least one;
  and the send API is called exactly when there is at least one parsed recipient.
\<close>

theorem composer_requires_recipient:
  "(parseRecipients (to_c c) = [] \<longrightarrow>
      handleSend_Composer env config c =
        \<lparr>composer_after = c\<lparr>error := Some ''At least one recipient is required.''\<rparr>,
         sent = [], closed = False\<rparr>) \<and>
   (\<forall>p \<in> set (sent (handleSend_Composer env config c)).
      to_p p = parseRecipients (to_c c) \<and> to_p p \<noteq> []) \<and>
   (sent (handleSend_Composer env config c) \<noteq> [] \<longleftrightarrow> parseRecipients (to_c c) \<noteq> [])"
proof (cases "parseRecipients (to_c c) = []")
  case True
  then have "handleSend_Composer env config c =
        \<lparr>composer_after = c\<lparr>error := Some ''At least one recipient is required.''\<rparr>,
         sent = [], closed = False\<rparr>"
    by (simp add: handleSend_Composer_def)
  with True show ?thesis by simp
next
  case False
  then have "\<exists>payload. sent (handleSend_Composer env config c) = [payload] \<and>
      to_p payload = parseRecipients (to_c c)"
    by (simp add: handleSend_Composer_def Let_def)
  with False show ?thesis by auto
qed

text \<open>A To field of a space, a comma and a no-break space names no recipient.\<close>

lemma parse_examples:
  "parseRecipients [CHR 0x20, CHR '','', CHR 0xC2, CHR 0xA0] = []"
  "parseRecipients ''a@x.org, b@y.org'' = [''a@x.org'', ''b@y.org'']"
  "parseRecipients [] = []"
  by code_simp+

theorem composer_requires_recipient_witness:
  "handleSend_Composer accepting_env new_mail blank_composer =
     \<lparr>composer_after = blank_composer\<lparr>error := Some ''At least one recipient is required.''\<rparr>,
      sent = [], closed = False\<rparr> \<and>
   sent (handleSend_Composer accepting_env new_mail (blank_composer\<lparr>to_c := ''a@x.org, b@y.org''\<rparr>))
     = [\<lparr>to_p = [''a@x.org'', ''b@y.org''], cc_p = [], bcc_p = [], subject_p = ''Hi'',
         body_p = ''Hello.'', thread_id_p = None, in_reply_to_p = None\<rparr>]"
proof -
  have none: "parseRecipients (to_c blank_composer) = []"
    by (simp add: blank_composer_def parse_examples)
  from composer_requires_recipient [of blank_composer accepting_env new_mail,
      THEN conjunct1, THEN mp, OF none]
  have 1: "handleSend_Composer accepting_env new_mail blank_composer =
     \<lparr>composer_after = blank_composer\<lparr>error := Some ''At least one recipient is required.''\<rparr>,
      sent = [], closed = False\<rparr>" .
  have 2: "sent (handleSend_Composer accepting_env new_mail (blank_composer\<lparr>to_c := ''a@x.org, b@y.org''\<rparr>))
     = [\<lparr>to_p = [''a@x.org'', ''b@y.org''], cc_p = [], bcc_p = [], subject_p = ''Hi'',
         body_p = ''Hello.'', thread_id_p = None, in_reply_to_p = None\<rparr>]"
    by (simp add: handleSend_Composer_def Let_def blank_composer_def parse_examples new_mail_def)
  from 1 2 show ?thesis by (rule conjI)
qed

section \<open>Properties of the retrieval context builder\<close>

lemma focus_email_found:
  "find (\<lambda>x. id' x = i) corpus = Some e \<Longrightarrow> focus_emails corpus (Focus_email i) = [e]"
  by (simp add: focus_emails_def focus_ids_def lookup_email_def)

text \<open>
  C4, on the context builder as the spec describes it: for a focus email id that
  names an email of the corpus, the context starts with that email as it is stored,
  body included, whatever the ranking by similarity, \<open>top_k\<close>, the costs and the
  budget are.
\<close>

theorem focus_always_in_context:
  assumes "find (\<lambda>x. id' x = i) corpus = Some e"
  shows "id' e = i \<and>
         (\<exists>others. build_context corpus ranked (Focus_email i) top_k cost budget = e # others) \<and>
         (\<exists>x \<in> set (build_context corpus ranked (Focus_email i) top_k cost budget).
            id' x = i \<and> body x = body e)"
proof -
  from assms have i: "id' e = i" by (auto simp: find_Some_iff)
  have ctx: "build_context corpus ranked (Focus_email i) top_k cost budget =
      e # truncate_retrieved cost budget [e] (retrieve ranked (Focus_email i) top_k)"
    by (simp add: build_context_def Let_def focus_email_found [OF assms])
  then have "\<exists>others. build_context corpus ranked (Focus_email i) top_k cost budget = e # others"
    by (rule exI)
  moreover from ctx i have "\<exists>x \<in> set (build_context corpus ranked (Focus_email i) top_k cost budget).
            id' x = i \<and> body x = body e"
    by simp
  ultimately show ?thesis using i by (intro conjI)
qed

theorem focus_always_in_context_witness:
  "\<exists>others. build_context [mock_email, gmail_email] [gmail_email, mock_email]
       (Focus_email ''m1'') 0 (\<lambda>x. 10) 0 = mock_email # others"
proof -
  have found: "find (\<lambda>x. id' x = ''m1'') [mock_email, gmail_email] = Some mock_email"
    by (simp add: mock_email_def mk_email_def)
  from focus_always_in_context [OF found, THEN conjunct2, THEN conjunct1]
  show ?thesis .
qed

end
